theory Spec2Isabelle
  imports Complex_Main "HOL-Library.Char_ord" "HOL-Library.List_Lexorder"
    "HOL-Library.Product_Lexorder"
begin

section \<open>Strings\<close>

text \<open>
  Python strings are modelled as \<^typ>\<open>string\<close>, one \<^typ>\<open>char\<close> per code point, so the
  model covers the code points below 256. The character classes are the ones Python's
  \<^verbatim>\<open>re\<close> and \<^verbatim>\<open>str\<close> use on that range: \<^verbatim>\<open>\d\<close> is a decimal digit, \<^verbatim>\<open>\s\<close> and
  \<^verbatim>\<open>str.strip\<close> use \<^verbatim>\<open>str.isspace\<close>, \<^verbatim>\<open>\w\<close> is \<^verbatim>\<open>str.isalnum\<close> or the underscore.
\<close>

definition code_point :: "char \<Rightarrow> nat" where
  "code_point c = of_char c"

definition is_digit :: "char \<Rightarrow> bool" where
  "is_digit c = (48 \<le> code_point c \<and> code_point c \<le> 57)"

definition is_space :: "char \<Rightarrow> bool" where
  "is_space c = (let n = code_point c in
     (9 \<le> n \<and> n \<le> 13) \<or> (28 \<le> n \<and> n \<le> 32) \<or> n = 133 \<or> n = 160)"

definition is_ascii_upper :: "char \<Rightarrow> bool" where
  "is_ascii_upper c = (65 \<le> code_point c \<and> code_point c \<le> 90)"

definition is_ascii_lower :: "char \<Rightarrow> bool" where
  "is_ascii_lower c = (97 \<le> code_point c \<and> code_point c \<le> 122)"

definition is_ascii_alpha :: "char \<Rightarrow> bool" where
  "is_ascii_alpha c = (is_ascii_upper c \<or> is_ascii_lower c)"

definition is_word :: "char \<Rightarrow> bool" where
  "is_word c = (let n = code_point c in
     is_digit c \<or> is_ascii_alpha c \<or> n = 95 \<or>
     n = 170 \<or> n = 178 \<or> n = 179 \<or> n = 181 \<or> n = 185 \<or> n = 186 \<or>
     n = 188 \<or> n = 189 \<or> n = 190 \<or>
     (192 \<le> n \<and> n \<le> 214) \<or> (216 \<le> n \<and> n \<le> 246) \<or> 248 \<le> n)"

definition lower_char :: "char \<Rightarrow> char" where
  "lower_char c = (let n = code_point c in
     if is_ascii_upper c \<or> (192 \<le> n \<and> n \<le> 222 \<and> n \<noteq> 215)
     then char_of (n + 32) else c)"

definition lower :: "string \<Rightarrow> string" where
  "lower s = map lower_char s"

definition strip :: "string \<Rightarrow> string" where
  "strip s = rev (dropWhile is_space (rev (dropWhile is_space s)))"

fun join :: "string \<Rightarrow> string list \<Rightarrow> string" where
  "join sep [] = []"
| "join sep [x] = x"
| "join sep (x # y # ys) = x @ sep @ join sep (y # ys)"

definition starts_with :: "string \<Rightarrow> string \<Rightarrow> bool" where
  "starts_with t s = (take (length s) t = s)"

text \<open>\<^verbatim>\<open>s in t\<close> on strings: \<open>s\<close> occurs in \<open>t\<close> as a contiguous block.\<close>

fun contains :: "string \<Rightarrow> string \<Rightarrow> bool" where
  "contains [] s = (s = [])"
| "contains (c # cs) s = (starts_with (c # cs) s \<or> contains cs s)"

text \<open>\<^verbatim>\<open>t[i:j]\<close> for \<open>0 \<le> i\<close>.\<close>

definition slice :: "string \<Rightarrow> nat \<Rightarrow> nat \<Rightarrow> string" where
  "slice t i j = take (j - i) (drop i t)"

definition digit_char :: "nat \<Rightarrow> char" where
  "digit_char d = char_of (48 + d)"

fun str_of_nat :: "nat \<Rightarrow> string" where
  "str_of_nat n = (if n < 10 then [digit_char n] else str_of_nat (n div 10) @ [digit_char (n mod 10)])"

declare str_of_nat.simps [simp del]

text \<open>\<^verbatim>\<open>str(i)\<close> on an integer.\<close>

definition str_of_int :: "int \<Rightarrow> string" where
  "str_of_int i = (if i < 0 then ''-'' @ str_of_nat (nat (- i)) else str_of_nat (nat i))"

text \<open>\<^verbatim>\<open>int(s)\<close> on a string of decimal digits, surrounding blanks ignored.\<close>

definition nat_of_str :: "string \<Rightarrow> nat" where
  "nat_of_str s = foldl (\<lambda>acc c. 10 * acc + (code_point c - 48)) 0 (strip s)"

section \<open>Regular expressions\<close>

text \<open>
  The patterns of the program use literals, character classes, bounded greedy repetition
  of a class, sequence, alternation, greedy option, capture groups and \<^verbatim>\<open>\b\<close>. The
  matcher below is the backtracking matcher of \<^verbatim>\<open>re\<close>: it lists the ways a pattern can
  match at a position in the order in which backtracking tries them, so the head of the list
  is the match \<^verbatim>\<open>re\<close> reports. A matcher state is the character before the position, the
  rest of the text and the groups captured so far. The flag is \<^verbatim>\<open>re.IGNORECASE\<close>; every
  class of the program's patterns is closed under case, so the flag acts on literals only.
\<close>

datatype rx =
    Lit string
  | Cls "char \<Rightarrow> bool"
  | Rep nat "nat option" "char \<Rightarrow> bool"
  | Seq rx rx
  | Alt rx rx
  | Opt rx
  | Grp nat rx
  | WordB

type_synonym mstate = "char option \<times> string \<times> (nat \<times> string) list"

definition advance :: "nat \<Rightarrow> mstate \<Rightarrow> mstate" where
  "advance k st = (case st of (prev, rest, g) \<Rightarrow>
     (if k = 0 then prev else Some (rest ! (k - 1)), drop k rest, g))"

definition is_word_opt :: "char option \<Rightarrow> bool" where
  "is_word_opt p = (case p of None \<Rightarrow> False | Some c \<Rightarrow> is_word c)"

definition next_char :: "string \<Rightarrow> char option" where
  "next_char s = (case s of [] \<Rightarrow> None | c # _ \<Rightarrow> Some c)"

fun rx_match :: "bool \<Rightarrow> rx \<Rightarrow> mstate \<Rightarrow> mstate list" where
  "rx_match ic (Lit s) st = (case st of (prev, rest, g) \<Rightarrow>
     (if length s \<le> length rest \<and>
         (if ic then lower (take (length s) rest) = lower s else take (length s) rest = s)
      then [advance (length s) st] else []))"
| "rx_match ic (Cls p) st = (case st of (prev, rest, g) \<Rightarrow>
     (case rest of [] \<Rightarrow> [] | c # cs \<Rightarrow> if p c then [(Some c, cs, g)] else []))"
| "rx_match ic (Rep lo hi p) st = (case st of (prev, rest, g) \<Rightarrow>
     (let run = length (takeWhile p rest);
          mx = (case hi of None \<Rightarrow> run | Some h \<Rightarrow> min h run)
      in map (\<lambda>k. advance k st) (rev [lo ..< Suc mx])))"
| "rx_match ic (Seq a b) st = concat (map (rx_match ic b) (rx_match ic a st))"
| "rx_match ic (Alt a b) st = rx_match ic a st @ rx_match ic b st"
| "rx_match ic (Opt a) st = rx_match ic a st @ [st]"
| "rx_match ic (Grp i a) st = (case st of (prev, rest, g) \<Rightarrow>
     map (\<lambda>st'. case st' of (prev', rest', g') \<Rightarrow>
            (prev', rest', (i, take (length rest - length rest') rest) # g'))
         (rx_match ic a st))"
| "rx_match ic WordB st = (case st of (prev, rest, g) \<Rightarrow>
     (if is_word_opt prev \<noteq> is_word_opt (next_char rest) then [st] else []))"

text \<open>A match: start offset, end offset, captured groups.\<close>

type_synonym rmatch = "nat \<times> nat \<times> (nat \<times> string) list"

text \<open>\<^verbatim>\<open>m.group(i)\<close> for \<open>i \<ge> 1\<close>, with the empty string for a group that did not take part
  (what \<^verbatim>\<open>re.findall\<close> puts there).\<close>

definition group :: "(nat \<times> string) list \<Rightarrow> nat \<Rightarrow> string" where
  "group g i = (case map_of g i of None \<Rightarrow> [] | Some s \<Rightarrow> s)"

text \<open>\<^verbatim>\<open>re.search\<close>: the first position at which the pattern matches.\<close>

fun search_from :: "bool \<Rightarrow> rx \<Rightarrow> nat \<Rightarrow> char option \<Rightarrow> string \<Rightarrow> rmatch option" where
  "search_from ic r pos prev [] =
     (case rx_match ic r (prev, [], []) of [] \<Rightarrow> None
      | (_, _, g) # _ \<Rightarrow> Some (pos, pos, g))"
| "search_from ic r pos prev (c # cs) =
     (case rx_match ic r (prev, c # cs, []) of
        [] \<Rightarrow> search_from ic r (pos + 1) (Some c) cs
      | (_, rest', g) # _ \<Rightarrow> Some (pos, pos + (length (c # cs) - length rest'), g))"

definition search :: "bool \<Rightarrow> rx \<Rightarrow> string \<Rightarrow> rmatch option" where
  "search ic r t = search_from ic r 0 None t"

text \<open>
  \<^verbatim>\<open>re.finditer\<close>: the matches from left to right, each search starting where the one
  before ended. \<open>skip\<close> counts the characters still covered by the last match. None of
  the program's patterns matches the empty string.
\<close>

fun scan :: "bool \<Rightarrow> rx \<Rightarrow> nat \<Rightarrow> nat \<Rightarrow> char option \<Rightarrow> string \<Rightarrow> rmatch list" where
  "scan ic r skip pos prev [] =
     (if skip = 0 then
        (case rx_match ic r (prev, [], []) of [] \<Rightarrow> [] | (_, _, g) # _ \<Rightarrow> [(pos, pos, g)])
      else [])"
| "scan ic r skip pos prev (c # cs) =
     (if 0 < skip then scan ic r (skip - 1) (pos + 1) (Some c) cs
      else (case rx_match ic r (prev, c # cs, []) of
              [] \<Rightarrow> scan ic r 0 (pos + 1) (Some c) cs
            | (_, rest', g) # _ \<Rightarrow>
                (let n = length (c # cs) - length rest'
                 in (pos, pos + n, g) # scan ic r (n - 1) (pos + 1) (Some c) cs)))"

definition finditer :: "bool \<Rightarrow> rx \<Rightarrow> string \<Rightarrow> rmatch list" where
  "finditer ic r t = scan ic r 0 0 None t"

text \<open>\<^verbatim>\<open>m.group(0)\<close>.\<close>

definition group0 :: "string \<Rightarrow> rmatch \<Rightarrow> string" where
  "group0 t m = (case m of (s, e, g) \<Rightarrow> slice t s e)"

text \<open>\<^verbatim>\<open>re.findall\<close> for a pattern with one group, and for one with two groups.\<close>

definition findall1 :: "bool \<Rightarrow> rx \<Rightarrow> string \<Rightarrow> string list" where
  "findall1 ic r t = map (\<lambda>m. case m of (s, e, g) \<Rightarrow> group g 1) (finditer ic r t)"

definition findall2 :: "bool \<Rightarrow> rx \<Rightarrow> string \<Rightarrow> (string \<times> string) list" where
  "findall2 ic r t = map (\<lambda>m. case m of (s, e, g) \<Rightarrow> (group g 1, group g 2)) (finditer ic r t)"

section \<open>Parsed documents\<close>

text \<open>
  A content element is one of the three dictionaries that \<^verbatim>\<open>extract_elements_from_page\<close>
  builds. Only paragraphs and tables have a \<^verbatim>\<open>text\<close> key; a figure has an image file name
  and a caption instead. A paragraph's metadata is its bounding box, the others' is empty.
\<close>

datatype element =
    Paragraph string int "real list"
  | Table string string int
  | Figure string string int

text \<open>\<^verbatim>\<open>el.get("text")\<close>, \<^verbatim>\<open>el.get("text", "")\<close> and \<^verbatim>\<open>el["page_number"]\<close>.\<close>

fun text_field :: "element \<Rightarrow> string option" where
  "text_field (Paragraph t pn bb) = Some t"
| "text_field (Table t h pn) = Some t"
| "text_field (Figure f c pn) = None"

definition get_text :: "element \<Rightarrow> string" where
  "get_text el = (case text_field el of None \<Rightarrow> [] | Some t \<Rightarrow> t)"

fun el_page_number :: "element \<Rightarrow> int" where
  "el_page_number (Paragraph t pn bb) = pn"
| "el_page_number (Table t h pn) = pn"
| "el_page_number (Figure f c pn) = pn"

fun is_figure :: "element \<Rightarrow> bool" where
  "is_figure (Figure f c pn) = True"
| "is_figure _ = False"

record parsed_document =
  content :: "element list"

text \<open>What the page parser gives for one page: the words with their boxes, the tables as
  grids of cell strings, and the raw text of the page, if any.\<close>

record word_block =
  w_text :: string
  x0 :: real
  top :: real
  x1 :: real
  bottom :: real

record page =
  extract_words :: "word_block list"
  extract_tables :: "string list list list"
  extract_text :: "string option"

text \<open>The caption pattern \<^verbatim>\<open>(Figure|Fig)[\s\-:]*(\d+)?[:\.\-]?\s*(.+)\<close>, used with
  \<^verbatim>\<open>re.IGNORECASE\<close>.\<close>

definition caption_rx :: rx where
  "caption_rx =
     Seq (Grp 1 (Alt (Lit ''Figure'') (Lit ''Fig'')))
    (Seq (Rep 0 None (\<lambda>c. is_space c \<or> c = CHR ''-'' \<or> c = CHR '':''))
    (Seq (Opt (Grp 2 (Rep 1 None is_digit)))
    (Seq (Rep 0 (Some 1) (\<lambda>c. c = CHR '':'' \<or> c = CHR ''.'' \<or> c = CHR ''-''))
    (Seq (Rep 0 None is_space)
         (Grp 3 (Rep 1 None (\<lambda>c. code_point c \<noteq> 10)))))))"

definition extract_caption_from_page_text :: "string option \<Rightarrow> string" where
  "extract_caption_from_page_text text =
     (case text of None \<Rightarrow> []
      | Some t \<Rightarrow> if t = [] then []
          else (case search True caption_rx t of None \<Rightarrow> [] | Some m \<Rightarrow> group0 t m))"

definition paragraph_elements :: "word_block list \<Rightarrow> int \<Rightarrow> element list" where
  "paragraph_elements blocks page_number =
     concat (map (\<lambda>block. let text = strip (w_text block) in
                    if text \<noteq> [] then
                      [Paragraph text page_number [x0 block, top block, x1 block, bottom block]]
                    else [])
                 blocks)"

definition table_element :: "string list list \<Rightarrow> int \<Rightarrow> element" where
  "table_element table page_number =
     (let table_text = join [char_of (10::nat)] (map (join '' | '') table);
          html_table = ''<table>'' @
            concat (map (\<lambda>row. ''<tr>'' @ concat (map (\<lambda>cell. ''<td>'' @ cell @ ''</td>'') row)
                                 @ ''</tr>'') table)
            @ ''</table>''
      in Table table_text html_table page_number)"

definition extract_elements_from_page :: "page \<Rightarrow> int \<Rightarrow> element list" where
  "extract_elements_from_page pg page_number =
     paragraph_elements (extract_words pg) page_number
     @ map (\<lambda>table. table_element table page_number) (extract_tables pg)
     @ [Figure (''page_'' @ str_of_int page_number @ ''.png'')
               (extract_caption_from_page_text (extract_text pg)) page_number]"

text \<open>\<^verbatim>\<open>parse_document\<close> over the pages of the opened file.\<close>

definition parse_document :: "page list \<Rightarrow> parsed_document" where
  "parse_document pages =
     \<lparr>content = concat (map (\<lambda>(i, pg). extract_elements_from_page pg (int i + 1))
                             (enumerate 0 pages))\<rparr>"

section \<open>Page resolution and name filter\<close>

fun find_page_in :: "string \<Rightarrow> element list \<Rightarrow> int" where
  "find_page_in text_snippet [] = - 1"
| "find_page_in text_snippet (el # els) =
     (if contains (get_text el) text_snippet then el_page_number el
      else find_page_in text_snippet els)"

definition find_page :: "string \<Rightarrow> parsed_document \<Rightarrow> int" where
  "find_page text_snippet parsed_doc = find_page_in text_snippet (content parsed_doc)"

definition generic_terms :: "string set" where
  "generic_terms = {''Contractor'', ''Request'', ''Works'', ''Milestones'', ''no.'', ''Name'',
     ''Company''}"

definition is_valid_name :: "string \<Rightarrow> bool" where
  "is_valid_name name = (name \<noteq> [] \<and> strip name \<noteq> [] \<and> name \<notin> generic_terms)"

section \<open>Dates\<close>

text \<open>
  \<^verbatim>\<open>datetime.strptime\<close> raises \<^verbatim>\<open>ValueError\<close> on a string that does not fit the format
  or names no calendar day. It works as the library does: the format becomes a pattern, the
  pattern is matched case-insensitively at the start of the string, text left over is an
  error, and the groups are converted. Groups: 1 the year, 2 the month number, 3 the day,
  4 the month name.
\<close>

datatype error = ValueError

record datetime =
  year :: nat
  month :: nat
  day :: nat

datatype directive = Dir_Y | Dir_m | Dir_d | Dir_B | Dir_lit string | Dir_space

definition in_range :: "nat \<Rightarrow> nat \<Rightarrow> char \<Rightarrow> bool" where
  "in_range lo hi c = (48 + lo \<le> code_point c \<and> code_point c \<le> 48 + hi)"

text \<open>The month names of the C locale, and the order in which the library's pattern tries
  them (longest first).\<close>

definition f_month :: "string list" where
  "f_month = [''january'', ''february'', ''march'', ''april'', ''may'', ''june'', ''july'',
     ''august'', ''september'', ''october'', ''november'', ''december'']"

definition month_alternatives :: "string list" where
  "month_alternatives = [''september'', ''february'', ''november'', ''december'', ''january'',
     ''october'', ''august'', ''march'', ''april'', ''june'', ''july'', ''may'']"

fun alts :: "rx list \<Rightarrow> rx" where
  "alts [] = Cls (\<lambda>c. False)"
| "alts [r] = r"
| "alts (r # r' # rs) = Alt r (alts (r' # rs))"

definition directive_rx :: "directive \<Rightarrow> rx" where
  "directive_rx d = (case d of
       Dir_Y \<Rightarrow> Grp 1 (Rep 4 (Some 4) is_digit)
     | Dir_m \<Rightarrow> Grp 2 (alts [Seq (Lit ''1'') (Cls (in_range 0 2)),
                              Seq (Lit ''0'') (Cls (in_range 1 9)),
                              Cls (in_range 1 9)])
     | Dir_d \<Rightarrow> Grp 3 (alts [Seq (Lit ''3'') (Cls (in_range 0 1)),
                              Seq (Cls (in_range 1 2)) (Cls is_digit),
                              Seq (Lit ''0'') (Cls (in_range 1 9)),
                              Cls (in_range 1 9),
                              Seq (Lit '' '') (Cls (in_range 1 9))])
     | Dir_B \<Rightarrow> Grp 4 (alts (map Lit month_alternatives))
     | Dir_lit s \<Rightarrow> Lit s
     | Dir_space \<Rightarrow> Rep 1 None is_space)"

fun format_regex :: "directive list \<Rightarrow> rx" where
  "format_regex [] = Lit []"
| "format_regex (d # ds) = Seq (directive_rx d) (format_regex ds)"

definition is_leap :: "nat \<Rightarrow> bool" where
  "is_leap y = (y mod 4 = 0 \<and> (y mod 100 \<noteq> 0 \<or> y mod 400 = 0))"

definition days_in_month :: "nat \<Rightarrow> nat \<Rightarrow> nat" where
  "days_in_month y m =
     (if m = 2 then (if is_leap y then 29 else 28)
      else if m = 4 \<or> m = 6 \<or> m = 9 \<or> m = 11 then 30 else 31)"

definition valid_date :: "nat \<Rightarrow> nat \<Rightarrow> nat \<Rightarrow> bool" where
  "valid_date y m d = (1 \<le> y \<and> y \<le> 9999 \<and> 1 \<le> m \<and> m \<le> 12 \<and> 1 \<le> d \<and> d \<le> days_in_month y m)"

definition strptime :: "string \<Rightarrow> directive list \<Rightarrow> error + datetime" where
  "strptime data_string fmt =
     (case rx_match True (format_regex fmt) (None, data_string, []) of
        [] \<Rightarrow> Inl ValueError
      | (_, rest, g) # _ \<Rightarrow>
          if rest \<noteq> [] then Inl ValueError
          else (let y = nat_of_str (group g 1);
                    m = (case map_of g 4 of
                           Some b \<Rightarrow> Suc (length (takeWhile (\<lambda>n. n \<noteq> lower b) f_month))
                         | None \<Rightarrow> nat_of_str (group g 2));
                    d = nat_of_str (group g 3)
                in if valid_date y m d then Inr \<lparr>year = y, month = m, day = d\<rparr>
                   else Inl ValueError))"

text \<open>The three formats \<^verbatim>\<open>%Y-%m-%d\<close>, \<^verbatim>\<open>%d/%m/%Y\<close> and \<^verbatim>\<open>%d %B %Y\<close>.\<close>

definition fmt_ymd :: "directive list" where
  "fmt_ymd = [Dir_Y, Dir_lit ''-'', Dir_m, Dir_lit ''-'', Dir_d]"

definition fmt_dmy :: "directive list" where
  "fmt_dmy = [Dir_d, Dir_lit ''/'', Dir_m, Dir_lit ''/'', Dir_Y]"

definition fmt_dBY :: "directive list" where
  "fmt_dBY = [Dir_d, Dir_space, Dir_B, Dir_space, Dir_Y]"

definition zfill :: "nat \<Rightarrow> string \<Rightarrow> string" where
  "zfill w s = replicate (w - length s) CHR ''0'' @ s"

text \<open>\<^verbatim>\<open>dt.strftime("%Y-%m-%d")\<close> as the C library renders it: the year in decimal
  without padding, the month and the day on two digits.\<close>

definition strftime_iso :: "datetime \<Rightarrow> string" where
  "strftime_iso dt = str_of_nat (year dt) @ ''-'' @ zfill 2 (str_of_nat (month dt))
     @ ''-'' @ zfill 2 (str_of_nat (day dt))"

text \<open>The three date patterns \<^verbatim>\<open>\b\d{4}-\d{2}-\d{2}\b\<close>, \<^verbatim>\<open>\b\d{1,2}/\d{1,2}/\d{2,4}\b\<close>
  and \<^verbatim>\<open>\b\d{1,2} [A-Za-z]+ \d{4}\b\<close>.\<close>

definition date_patterns :: "rx list" where
  "date_patterns =
    [Seq WordB (Seq (Rep 4 (Some 4) is_digit) (Seq (Lit ''-'') (Seq (Rep 2 (Some 2) is_digit)
       (Seq (Lit ''-'') (Seq (Rep 2 (Some 2) is_digit) WordB))))),
     Seq WordB (Seq (Rep 1 (Some 2) is_digit) (Seq (Lit ''/'') (Seq (Rep 1 (Some 2) is_digit)
       (Seq (Lit ''/'') (Seq (Rep 2 (Some 4) is_digit) WordB))))),
     Seq WordB (Seq (Rep 1 (Some 2) is_digit) (Seq (Lit '' '') (Seq (Rep 1 None is_ascii_alpha)
       (Seq (Lit '' '') (Seq (Rep 4 (Some 4) is_digit) WordB)))))]"

section \<open>Metadata extraction\<close>

record date_reference =
  date :: string
  surrounding_context :: string

text \<open>An entry of \<^verbatim>\<open>persons\<close> or of \<^verbatim>\<open>letters_mentioned\<close>.\<close>

record named_reference =
  name :: string
  page_number :: int

record clause_reference =
  reference :: string
  type :: string
  clause_page_number :: int

record references =
  letters_mentioned :: "named_reference list"
  laws_clauses_articles_acts :: "clause_reference list"
  persons :: "named_reference list"

record legal_metadata =
  document_name :: string
  document_date :: string
  dates :: "date_reference list"
  references :: references

text \<open>
  The objects \<^verbatim>\<open>extract_legal_metadata\<close> works on: the caller's document, the metadata
  dictionary under construction, and the three local sets.
\<close>

record state =
  parsed_doc :: parsed_document
  metadata :: legal_metadata
  found_dates :: "(string \<times> nat \<times> nat) set"
  seen_persons :: "string set"
  seen_clauses :: "string set"

definition letter_rx :: rx where
  "letter_rx =
     Seq (Lit ''Letter'')
    (Seq (Rep 1 None is_space)
    (Seq (Opt (Alt (Lit ''No.'') (Lit ''Number'')))
    (Seq (Rep 0 None is_space)
         (Grp 1 (Rep 1 None (\<lambda>c. is_word c \<or> c = CHR ''-'' \<or> c = CHR ''/''))))))"

definition clause_rx :: rx where
  "clause_rx =
     Seq (Grp 1 (Alt (Lit ''Clause'') (Alt (Lit ''Article'') (Lit ''Act''))))
    (Seq (Rep 1 None is_space)
    (Seq (Rep 1 None is_digit)
         (Opt (Grp 2 (Seq (Lit ''.'') (Rep 1 None is_digit))))))"

definition all_text_of :: "parsed_document \<Rightarrow> string" where
  "all_text_of doc = join '' '' (map get_text (content doc))"

definition add_found :: "datetime \<Rightarrow> nat \<Rightarrow> nat \<Rightarrow> state \<Rightarrow> state" where
  "add_found dt start end st =
     (let iso_date = strftime_iso dt
      in st\<lparr>found_dates := insert (iso_date, start, end) (found_dates st)\<rparr>)"

text \<open>The body of the loop over the matches of one date pattern: the three nested
  \<^verbatim>\<open>try\<close> blocks, \<^verbatim>\<open>continue\<close> in the innermost handler.\<close>

definition date_step :: "string \<Rightarrow> rmatch \<Rightarrow> state \<Rightarrow> error + state" where
  "date_step all_text m st = (case m of (start, end, g) \<Rightarrow>
     (let date_str = group0 all_text m in
      case strptime date_str fmt_ymd of
        Inr dt \<Rightarrow> Inr (add_found dt start end st)
      | Inl _ \<Rightarrow>
         (case strptime date_str fmt_dmy of
            Inr dt \<Rightarrow> Inr (add_found dt start end st)
          | Inl _ \<Rightarrow>
             (case strptime date_str fmt_dBY of
                Inr dt \<Rightarrow> Inr (add_found dt start end st)
              | Inl _ \<Rightarrow> Inr st))))"

fun match_loop :: "string \<Rightarrow> rmatch list \<Rightarrow> state \<Rightarrow> error + state" where
  "match_loop all_text [] st = Inr st"
| "match_loop all_text (m # ms) st =
     (case date_step all_text m st of Inl e \<Rightarrow> Inl e | Inr st' \<Rightarrow> match_loop all_text ms st')"

fun pattern_loop :: "string \<Rightarrow> rx list \<Rightarrow> state \<Rightarrow> error + state" where
  "pattern_loop all_text [] st = Inr st"
| "pattern_loop all_text (pattern # ps) st =
     (case match_loop all_text (finditer False pattern all_text) st of
        Inl e \<Rightarrow> Inl e
      | Inr st' \<Rightarrow> pattern_loop all_text ps st')"

definition date_entry_step :: "string \<Rightarrow> string \<times> nat \<times> nat \<Rightarrow> state \<Rightarrow> state" where
  "date_entry_step all_text k st = (case k of (iso_date, start, end) \<Rightarrow>
     st\<lparr>metadata := (metadata st)\<lparr>dates := dates (metadata st) @
        [\<lparr>date = iso_date,
          surrounding_context = slice all_text (nat (max (int start - 50) 0)) (end + 50)\<rparr>]\<rparr>\<rparr>)"

definition document_date_step :: "state \<Rightarrow> state" where
  "document_date_step st =
     (if dates (metadata st) \<noteq> []
      then st\<lparr>metadata := (metadata st)\<lparr>document_date := date (dates (metadata st) ! 0)\<rparr>\<rparr>
      else st)"

definition person_step :: "string \<times> string \<Rightarrow> state \<Rightarrow> state" where
  "person_step ent st = (case ent of (ent_text, ent_label) \<Rightarrow>
     if ent_label = ''PERSON'' \<and> is_valid_name ent_text then
       (let nm = strip ent_text in
        if nm \<notin> seen_persons st then
          st\<lparr>seen_persons := insert nm (seen_persons st),
             metadata := (metadata st)\<lparr>references := (references (metadata st))
               \<lparr>persons := persons (references (metadata st)) @
                  [\<lparr>name = nm, page_number = find_page nm (parsed_doc st)\<rparr>]\<rparr>\<rparr>\<rparr>
        else st)
     else st)"

definition letter_step :: "string \<Rightarrow> state \<Rightarrow> state" where
  "letter_step m st =
     (if is_valid_name m then
        st\<lparr>metadata := (metadata st)\<lparr>references := (references (metadata st))
             \<lparr>letters_mentioned := letters_mentioned (references (metadata st)) @
                [\<lparr>name = m, page_number = find_page m (parsed_doc st)\<rparr>]\<rparr>\<rparr>\<rparr>
      else st)"

definition clause_step :: "string \<times> string \<Rightarrow> state \<Rightarrow> state" where
  "clause_step ref st =
     (let full_ref = strip (fst ref @ '' '' @ (if snd ref \<noteq> [] then snd ref else []))
      in if full_ref \<notin> seen_clauses st then
           st\<lparr>seen_clauses := insert full_ref (seen_clauses st),
              metadata := (metadata st)\<lparr>references := (references (metadata st))
                \<lparr>laws_clauses_articles_acts :=
                   laws_clauses_articles_acts (references (metadata st)) @
                   [\<lparr>reference = full_ref, type = lower (fst ref),
                     clause_page_number = find_page full_ref (parsed_doc st)\<rparr>]\<rparr>\<rparr>\<rparr>
         else st)"

definition initial_state :: "parsed_document \<Rightarrow> string \<Rightarrow> state" where
  "initial_state doc pdf_filename =
     \<lparr>parsed_doc = doc,
      metadata = \<lparr>document_name = pdf_filename, document_date = ''not found'', dates = [],
                  references = \<lparr>letters_mentioned = [], laws_clauses_articles_acts = [],
                                persons = []\<rparr>\<rparr>,
      found_dates = {}, seen_persons = {}, seen_clauses = {}\<rparr>"

text \<open>What follows the date scan: the sorted dates, the document date, persons, letters,
  clauses. \<open>ents\<close> are the spans of the entity tagger, each with its text and its label.\<close>

definition after_dates :: "string \<Rightarrow> (string \<times> string) list \<Rightarrow> state \<Rightarrow> state" where
  "after_dates all_text ents st1 =
     (let st2 = fold (date_entry_step all_text) (sorted_list_of_set (found_dates st1)) st1;
          st3 = document_date_step st2;
          st4 = fold person_step ents st3;
          st5 = fold letter_step (findall1 True letter_rx all_text) st4
      in fold clause_step (findall2 False clause_rx all_text) st5)"

text \<open>
  \<^verbatim>\<open>extract_legal_metadata\<close>, with the entity tagger \<open>nlp\<close> as a parameter, and the state it
  ends in. The result is the metadata dictionary (the code wraps it under the key
  \<^verbatim>\<open>metadata\<close>).
\<close>

definition extract_legal_metadata_state ::
  "(string \<Rightarrow> (string \<times> string) list) \<Rightarrow> parsed_document \<Rightarrow> string \<Rightarrow> error + state" where
  "extract_legal_metadata_state nlp doc pdf_filename =
     (let st0 = initial_state doc pdf_filename;
          all_text = all_text_of doc;
          ents = nlp all_text
      in case pattern_loop all_text date_patterns st0 of
           Inl e \<Rightarrow> Inl e
         | Inr st1 \<Rightarrow> Inr (after_dates all_text ents st1))"

definition extract_legal_metadata ::
  "(string \<Rightarrow> (string \<times> string) list) \<Rightarrow> parsed_document \<Rightarrow> string \<Rightarrow> error + legal_metadata" where
  "extract_legal_metadata nlp doc pdf_filename =
     (case extract_legal_metadata_state nlp doc pdf_filename of
        Inl e \<Rightarrow> Inl e
      | Inr st \<Rightarrow> Inr (metadata st))"

section \<open>Reference definitions\<close>

text \<open>
  The functions below say what the loops of \<^verbatim>\<open>extract_legal_metadata\<close> are meant to
  compute; the proofs relate them to the loops.
\<close>

fun first_ok :: "(error + 'a) list \<Rightarrow> 'a option" where
  "first_ok [] = None"
| "first_ok (Inr x # rs) = Some x"
| "first_ok (Inl e # rs) = first_ok rs"

definition normalize_date :: "string \<Rightarrow> string option" where
  "normalize_date s = map_option strftime_iso (first_ok (map (strptime s) [fmt_ymd, fmt_dmy, fmt_dBY]))"

definition match_keys :: "string \<Rightarrow> rmatch list \<Rightarrow> (string \<times> nat \<times> nat) list" where
  "match_keys t ms = concat (map (\<lambda>m. case m of (s, e, g) \<Rightarrow>
      (case normalize_date (slice t s e) of None \<Rightarrow> [] | Some d \<Rightarrow> [(d, s, e)])) ms)"

definition date_keys :: "string \<Rightarrow> (string \<times> nat \<times> nat) set" where
  "date_keys t = set (concat (map (\<lambda>p. match_keys t (finditer False p t)) date_patterns))"

definition date_entry :: "string \<Rightarrow> string \<times> nat \<times> nat \<Rightarrow> date_reference" where
  "date_entry t k = (case k of (d, s, e) \<Rightarrow>
     \<lparr>date = d, surrounding_context = slice t (s - 50) (e + 50)\<rparr>)"

primrec keep_first :: "'a list \<Rightarrow> 'a list" where
  "keep_first [] = []"
| "keep_first (x # xs) = x # filter (\<lambda>y. y \<noteq> x) (keep_first xs)"

definition person_candidates :: "(string \<times> string) list \<Rightarrow> string list" where
  "person_candidates ents =
     map (\<lambda>ent. strip (fst ent))
         (filter (\<lambda>ent. snd ent = ''PERSON'' \<and> is_valid_name (fst ent)) ents)"

definition sorted_keys :: "string \<Rightarrow> (string \<times> nat \<times> nat) list" where
  "sorted_keys t = sorted_list_of_set (date_keys t)"

text \<open>A figure with its caption rewritten; the other elements as they are.\<close>

fun recaption :: "(string \<Rightarrow> string) \<Rightarrow> element \<Rightarrow> element" where
  "recaption h (Figure f c pn) = Figure f (h c) pn"
| "recaption h el = el"

text \<open>A tagged span the person filter rejects: labelled as a person, with a text that is
  a stop-list term or blank.\<close>

definition stop_listed :: "string \<times> string \<Rightarrow> bool" where
  "stop_listed ent = (snd ent = ''PERSON'' \<and> (fst ent \<in> generic_terms \<or> strip (fst ent) = []))"

text \<open>The page resolver read literally: only an element that has a \<^verbatim>\<open>text\<close> field can
  contain the fragment.\<close>

fun text_field_page_in :: "string \<Rightarrow> element list \<Rightarrow> int" where
  "text_field_page_in s [] = - 1"
| "text_field_page_in s (el # els) =
     (case text_field el of
        Some x \<Rightarrow> if contains x s then el_page_number el else text_field_page_in s els
      | None \<Rightarrow> text_field_page_in s els)"

definition text_field_page :: "string \<Rightarrow> parsed_document \<Rightarrow> int" where
  "text_field_page s doc = text_field_page_in s (content doc)"

text \<open>Documents used as examples. A word box plays no part in the metadata.\<close>

definition word_at :: "string \<Rightarrow> word_block" where
  "word_at w = \<lparr>w_text = w, x0 = 0, top = 0, x1 = 0, bottom = 0\<rparr>"

definition page_of_words :: "string list \<Rightarrow> page" where
  "page_of_words ws =
     \<lparr>extract_words = map word_at ws, extract_tables = [], extract_text = Some (join '' '' ws)\<rparr>"

definition page_of_table :: "string list list \<Rightarrow> page" where
  "page_of_table tb = \<lparr>extract_words = [], extract_tables = [tb], extract_text = Some []\<rparr>"

definition no_entities :: "string \<Rightarrow> (string \<times> string) list" where
  "no_entities t = []"

text \<open>A page number a reference may carry in a document assembled from \<open>pages\<close>.\<close>

definition page_ok :: "page list \<Rightarrow> int \<Rightarrow> bool" where
  "page_ok pages p = (p = - 1 \<or>
     (p \<in> el_page_number ` set (content (parse_document pages)) \<and> 1 \<le> p \<and> p \<le> int (length pages)))"

definition example_dated :: parsed_document where
  "example_dated = parse_document
     [page_of_words [''15'', ''March'', ''2023'', ''2022-01-01'', ''2022-01-01'']]"


definition example_undated :: parsed_document where
  "example_undated = parse_document
     [page_of_words [''2024-13-45'', ''31/02/2024'', ''01/02/24'', ''5'', ''Marchh'', ''2023'']]"

definition example_letters :: parsed_document where
  "example_letters = parse_document
     [page_of_words [''Letter'', ''No.'', ''A-1'', ''Letter'', ''No.'', ''A-1'']]"

definition example_tagger :: "string \<Rightarrow> (string \<times> string) list" where
  "example_tagger t = [(''Contractor'', ''PERSON''), (''John Smith'', ''PERSON''),
     ('' John Smith'', ''PERSON''), (''Acme'', ''ORG''), (''  '', ''PERSON'')]"

definition example_pages :: "page list" where
  "example_pages = [page_of_words [''Dear'', ''Sir''], page_of_words [''Article'', ''5''],
     page_of_words [''Letter'', ''No.'', ''X-1'']]"

definition sir_tagger :: "string \<Rightarrow> (string \<times> string) list" where
  "sir_tagger t = [(''Sir'', ''PERSON'')]"

definition example_figure :: parsed_document where
  "example_figure = parse_document
     [\<lparr>extract_words = [], extract_tables = [], extract_text = Some ''Figure 1: Site plan''\<rparr>,
      page_of_words [''Site'', ''office'']]"

definition example_three_pages :: parsed_document where
  "example_three_pages = parse_document
     [page_of_words [''Alpha''], page_of_words [''Beta''], page_of_words [''Gamma'']]"

definition example_blank_first :: parsed_document where
  "example_blank_first = parse_document [page_of_words [], page_of_words [''x'']]"

section \<open>The loops in closed form\<close>

lemma date_step_eq:
  "date_step t (s, e, g) st =
     Inr (case normalize_date (slice t s e) of None \<Rightarrow> st
          | Some d \<Rightarrow> st\<lparr>found_dates := insert (d, s, e) (found_dates st)\<rparr>)"
  by (simp add: date_step_def normalize_date_def add_found_def group0_def Let_def
      split: sum.splits)

lemma match_loop_eq:
  "match_loop t ms st = Inr (st\<lparr>found_dates := found_dates st \<union> set (match_keys t ms)\<rparr>)"
proof (induction ms arbitrary: st)
  case Nil
  then show ?case by (simp add: match_keys_def)
next
  case (Cons m ms)
  obtain s e g where m: "m = (s, e, g)" by (cases m) auto
  show ?case
    by (cases "normalize_date (slice t s e)")
       (simp_all add: m date_step_eq Cons.IH match_keys_def)
qed

lemma pattern_loop_eq:
  "pattern_loop t ps st =
     Inr (st\<lparr>found_dates := found_dates st \<union>
            set (concat (map (\<lambda>p. match_keys t (finditer False p t)) ps))\<rparr>)"
proof (induction ps arbitrary: st)
  case Nil
  then show ?case by simp
next
  case (Cons p ps)
  show ?case by (simp add: match_loop_eq Cons.IH Un_assoc)
qed

lemma date_scan_eq:
  "pattern_loop t date_patterns (initial_state doc fn) =
     Inr ((initial_state doc fn)\<lparr>found_dates := date_keys t\<rparr>)"
  by (simp add: pattern_loop_eq date_keys_def initial_state_def)

lemma fold_invariant:
  assumes "P s" and "\<And>x s. P s \<Longrightarrow> P (f x s)"
  shows "P (fold f xs s)"
  using assms(1) by (induction xs arbitrary: s) (simp_all add: assms(2))

lemma date_entries_fold:
  "fold (date_entry_step t) ks st =
     st\<lparr>metadata := (metadata st)\<lparr>dates := dates (metadata st) @ map (date_entry t) ks\<rparr>\<rparr>"
proof (induction ks arbitrary: st)
  case Nil
  then show ?case by simp
next
  case (Cons k ks)
  obtain d s e where k: "k = (d, s, e)" by (cases k) auto
  have n: "nat (max (int s - 50) 0) = s - 50" by simp
  have "fold (date_entry_step t) (k # ks) st = fold (date_entry_step t) ks (date_entry_step t k st)"
    by simp
  also have "\<dots> = (date_entry_step t k st)\<lparr>metadata := (metadata (date_entry_step t k st))
      \<lparr>dates := dates (metadata (date_entry_step t k st)) @ map (date_entry t) ks\<rparr>\<rparr>"
    by (rule Cons.IH)
  also have "\<dots> = st\<lparr>metadata := (metadata st)
      \<lparr>dates := dates (metadata st) @ map (date_entry t) (k # ks)\<rparr>\<rparr>"
    by (simp add: k n date_entry_step_def date_entry_def)
  finally show ?case .
qed

lemma letters_fold:
  "fold letter_step ms st =
     st\<lparr>metadata := (metadata st)\<lparr>references := (references (metadata st))
        \<lparr>letters_mentioned := letters_mentioned (references (metadata st)) @
           map (\<lambda>m. \<lparr>name = m, page_number = find_page m (parsed_doc st)\<rparr>)
               (filter is_valid_name ms)\<rparr>\<rparr>\<rparr>"
proof (induction ms arbitrary: st)
  case Nil
  then show ?case by simp
next
  case (Cons m ms)
  have "fold letter_step (m # ms) st = fold letter_step ms (letter_step m st)"
    by simp
  also have "\<dots> = (letter_step m st)\<lparr>metadata := (metadata (letter_step m st))
        \<lparr>references := (references (metadata (letter_step m st)))
        \<lparr>letters_mentioned := letters_mentioned (references (metadata (letter_step m st))) @
           map (\<lambda>m'. \<lparr>name = m', page_number = find_page m' (parsed_doc (letter_step m st))\<rparr>)
               (filter is_valid_name ms)\<rparr>\<rparr>\<rparr>"
    by (rule Cons.IH)
  also have "\<dots> = st\<lparr>metadata := (metadata st)\<lparr>references := (references (metadata st))
        \<lparr>letters_mentioned := letters_mentioned (references (metadata st)) @
           map (\<lambda>m. \<lparr>name = m, page_number = find_page m (parsed_doc st)\<rparr>)
               (filter is_valid_name (m # ms))\<rparr>\<rparr>\<rparr>"
    by (simp add: letter_step_def)
  finally show ?case .
qed

lemma filter_not_in_insert:
  "filter (\<lambda>n. n \<notin> insert x S) ys = filter (\<lambda>n. n \<notin> S) (filter (\<lambda>y. y \<noteq> x) ys)"
  by (induction ys) auto

lemma filter_not_in_member:
  "x \<in> S \<Longrightarrow> filter (\<lambda>n. n \<notin> S) (filter (\<lambda>y. y \<noteq> x) ys) = filter (\<lambda>n. n \<notin> S) ys"
  by (induction ys) auto

lemma keep_first_seen:
  "x \<in> S \<Longrightarrow>
     filter (\<lambda>n. n \<notin> S) (keep_first (x # cs)) = filter (\<lambda>n. n \<notin> S) (keep_first cs)"
  by (simp add: filter_not_in_member del: filter_filter)

lemma keep_first_new:
  "x \<notin> S \<Longrightarrow>
     filter (\<lambda>n. n \<notin> S) (keep_first (x # cs)) =
       x # filter (\<lambda>n. n \<notin> insert x S) (keep_first cs)"
  using filter_not_in_insert [of x S "keep_first cs"] by simp

lemma persons_fold:
  "fold person_step ents st =
     st\<lparr>seen_persons := seen_persons st \<union> set (person_candidates ents),
        metadata := (metadata st)\<lparr>references := (references (metadata st))
          \<lparr>persons := persons (references (metadata st)) @
             map (\<lambda>n. \<lparr>name = n, page_number = find_page n (parsed_doc st)\<rparr>)
                 (filter (\<lambda>n. n \<notin> seen_persons st) (keep_first (person_candidates ents)))\<rparr>\<rparr>\<rparr>"
proof (induction ents arbitrary: st)
  case Nil
  then show ?case by (simp add: person_candidates_def)
next
  case (Cons ent ents)
  let ?st' = "person_step ent st"
  let ?cs = "person_candidates ents"
  have unfold: "fold person_step (ent # ents) st = fold person_step ents ?st'"
    by simp
  have ih: "fold person_step ents ?st' =
     ?st'\<lparr>seen_persons := seen_persons ?st' \<union> set ?cs,
        metadata := (metadata ?st')\<lparr>references := (references (metadata ?st'))
          \<lparr>persons := persons (references (metadata ?st')) @
             map (\<lambda>n. \<lparr>name = n, page_number = find_page n (parsed_doc ?st')\<rparr>)
                 (filter (\<lambda>n. n \<notin> seen_persons ?st') (keep_first ?cs))\<rparr>\<rparr>\<rparr>"
    by (rule Cons.IH)
  obtain tx lb where ent: "ent = (tx, lb)" by (cases ent) auto
  consider (skip) "\<not> (lb = ''PERSON'' \<and> is_valid_name tx)"
    | (seen) "lb = ''PERSON''" "is_valid_name tx" "strip tx \<in> seen_persons st"
    | (new) "lb = ''PERSON''" "is_valid_name tx" "strip tx \<notin> seen_persons st"
    by blast
  then show ?case
  proof cases
    case skip
    then have st': "?st' = st" by (auto simp add: person_step_def ent)
    from skip have cs: "person_candidates (ent # ents) = ?cs"
      by (auto simp add: person_candidates_def ent)
    show ?thesis using ih by (simp add: st' cs)
  next
    case seen
    then have st': "?st' = st" by (simp add: person_step_def ent Let_def)
    from seen have cs: "person_candidates (ent # ents) = strip tx # ?cs"
      by (simp add: person_candidates_def ent)
    from seen(3) have m: "insert (strip tx) (seen_persons st \<union> set ?cs) = seen_persons st \<union> set ?cs"
      by auto
    show ?thesis using ih
      by (simp add: st' cs m keep_first_seen [OF seen(3)] del: keep_first.simps)
  next
    case new
    then have st': "?st' = st\<lparr>seen_persons := insert (strip tx) (seen_persons st),
         metadata := (metadata st)\<lparr>references := (references (metadata st))
           \<lparr>persons := persons (references (metadata st)) @
              [\<lparr>name = strip tx, page_number = find_page (strip tx) (parsed_doc st)\<rparr>]\<rparr>\<rparr>\<rparr>"
      by (simp add: person_step_def ent Let_def)
    from new have cs: "person_candidates (ent # ents) = strip tx # ?cs"
      by (simp add: person_candidates_def ent)
    show ?thesis unfolding unfold ih cs
      by (simp add: st' keep_first_new [OF new(3)] del: keep_first.simps)
  qed
qed

lemma clauses_fold:
  "\<exists>S L. fold clause_step rs st =
     st\<lparr>seen_clauses := S,
        metadata := (metadata st)\<lparr>references := (references (metadata st))
          \<lparr>laws_clauses_articles_acts :=
             laws_clauses_articles_acts (references (metadata st)) @ L\<rparr>\<rparr>\<rparr>
     \<and> (\<forall>r\<in>set L. clause_page_number r = find_page (reference r) (parsed_doc st))"
proof (induction rs arbitrary: st)
  case Nil
  have "st = st\<lparr>seen_clauses := seen_clauses st,
        metadata := (metadata st)\<lparr>references := (references (metadata st))
          \<lparr>laws_clauses_articles_acts :=
             laws_clauses_articles_acts (references (metadata st)) @ []\<rparr>\<rparr>\<rparr>"
    by simp
  then show ?case by (metis empty_iff empty_set fold_simps(1))
next
  case (Cons r rs)
  let ?st' = "clause_step r st"
  let ?fr = "strip (fst r @ '' '' @ (if snd r \<noteq> [] then snd r else []))"
  obtain S L where ih: "fold clause_step rs ?st' =
     ?st'\<lparr>seen_clauses := S,
        metadata := (metadata ?st')\<lparr>references := (references (metadata ?st'))
          \<lparr>laws_clauses_articles_acts :=
             laws_clauses_articles_acts (references (metadata ?st')) @ L\<rparr>\<rparr>\<rparr>"
    and pg: "\<forall>r\<in>set L. clause_page_number r = find_page (reference r) (parsed_doc ?st')"
    using Cons.IH [of ?st'] by blast
  have unfold: "fold clause_step (r # rs) st = fold clause_step rs ?st'" by simp
  show ?case
  proof (cases "?fr \<in> seen_clauses st")
    case True
    then have st': "?st' = st" by (simp add: clause_step_def Let_def)
    show ?thesis unfolding unfold using ih pg unfolding st' by blast
  next
    case False
    let ?e = "\<lparr>reference = ?fr, type = lower (fst r),
                clause_page_number = find_page ?fr (parsed_doc st)\<rparr>"
    from False have st': "?st' = st\<lparr>seen_clauses := insert ?fr (seen_clauses st),
         metadata := (metadata st)\<lparr>references := (references (metadata st))
           \<lparr>laws_clauses_articles_acts :=
              laws_clauses_articles_acts (references (metadata st)) @ [?e]\<rparr>\<rparr>\<rparr>"
      by (simp add: clause_step_def Let_def)
    have pd: "parsed_doc ?st' = parsed_doc st" by (simp add: st')
    have eq: "fold clause_step (r # rs) st =
       st\<lparr>seen_clauses := S,
        metadata := (metadata st)\<lparr>references := (references (metadata st))
          \<lparr>laws_clauses_articles_acts :=
             laws_clauses_articles_acts (references (metadata st)) @ (?e # L)\<rparr>\<rparr>\<rparr>"
      unfolding unfold ih by (simp add: st')
    have "\<forall>r\<in>set (?e # L). clause_page_number r = find_page (reference r) (parsed_doc st)"
      using pg pd by simp
    with eq show ?thesis by blast
  qed
qed

lemma date_of_entry: "date (date_entry t k) = fst k"
  by (cases k) (simp add: date_entry_def)

lemma document_date_step_eq:
  "document_date_step (st\<lparr>metadata := (metadata st)\<lparr>dates := map (date_entry t) ks\<rparr>\<rparr>) =
     st\<lparr>metadata := (metadata st)\<lparr>dates := map (date_entry t) ks,
          document_date := (if ks = [] then document_date (metadata st) else fst (hd ks))\<rparr>\<rparr>"
  by (cases ks) (simp_all add: document_date_step_def date_of_entry)

lemma extract_state:
  fixes nlp doc fn
  defines "t \<equiv> all_text_of doc"
  shows "\<exists>S L. extract_legal_metadata_state nlp doc fn =
     Inr \<lparr>parsed_doc = doc,
          metadata = \<lparr>document_name = fn,
            document_date = (if sorted_keys t = [] then ''not found'' else fst (hd (sorted_keys t))),
            dates = map (date_entry t) (sorted_keys t),
            references = \<lparr>
              letters_mentioned = map (\<lambda>m. \<lparr>name = m, page_number = find_page m doc\<rparr>)
                 (filter is_valid_name (findall1 True letter_rx t)),
              laws_clauses_articles_acts = L,
              persons = map (\<lambda>n. \<lparr>name = n, page_number = find_page n doc\<rparr>)
                 (keep_first (person_candidates (nlp t)))\<rparr>\<rparr>,
          found_dates = date_keys t,
          seen_persons = set (person_candidates (nlp t)),
          seen_clauses = S\<rparr>
     \<and> (\<forall>r\<in>set L. clause_page_number r = find_page (reference r) doc)"
proof -
  let ?st1 = "(initial_state doc fn)\<lparr>found_dates := date_keys t\<rparr>"
  let ?st2 = "fold (date_entry_step t) (sorted_list_of_set (found_dates ?st1)) ?st1"
  let ?st3 = "document_date_step ?st2"
  let ?st4 = "fold person_step (nlp t) ?st3"
  let ?st5 = "fold letter_step (findall1 True letter_rx t) ?st4"
  have st2: "?st2 = ?st1\<lparr>metadata := (metadata ?st1)\<lparr>dates := map (date_entry t) (sorted_keys t)\<rparr>\<rparr>"
    by (simp add: date_entries_fold sorted_keys_def initial_state_def)
  have st3: "?st3 = ?st1\<lparr>metadata := (metadata ?st1)\<lparr>dates := map (date_entry t) (sorted_keys t),
          document_date := (if sorted_keys t = [] then ''not found'' else fst (hd (sorted_keys t)))\<rparr>\<rparr>"
    unfolding st2 document_date_step_eq by (simp add: initial_state_def)
  have st5: "?st5 = \<lparr>parsed_doc = doc,
          metadata = \<lparr>document_name = fn,
            document_date = (if sorted_keys t = [] then ''not found'' else fst (hd (sorted_keys t))),
            dates = map (date_entry t) (sorted_keys t),
            references = \<lparr>
              letters_mentioned = map (\<lambda>m. \<lparr>name = m, page_number = find_page m doc\<rparr>)
                 (filter is_valid_name (findall1 True letter_rx t)),
              laws_clauses_articles_acts = [],
              persons = map (\<lambda>n. \<lparr>name = n, page_number = find_page n doc\<rparr>)
                 (keep_first (person_candidates (nlp t)))\<rparr>\<rparr>,
          found_dates = date_keys t,
          seen_persons = set (person_candidates (nlp t)),
          seen_clauses = {}\<rparr>"
    unfolding letters_fold persons_fold st3 by (simp add: initial_state_def)
  obtain S L where f: "fold clause_step (findall2 False clause_rx t) ?st5 =
     ?st5\<lparr>seen_clauses := S,
        metadata := (metadata ?st5)\<lparr>references := (references (metadata ?st5))
          \<lparr>laws_clauses_articles_acts :=
             laws_clauses_articles_acts (references (metadata ?st5)) @ L\<rparr>\<rparr>\<rparr>"
    and pg: "\<forall>r\<in>set L. clause_page_number r = find_page (reference r) (parsed_doc ?st5)"
    using clauses_fold [of "findall2 False clause_rx t" ?st5] by blast
  have "extract_legal_metadata_state nlp doc fn =
     Inr (fold clause_step (findall2 False clause_rx t) ?st5)"
    by (simp add: extract_legal_metadata_state_def t_def [symmetric] date_scan_eq
        after_dates_def Let_def)
  also have "\<dots> = Inr (?st5\<lparr>seen_clauses := S,
        metadata := (metadata ?st5)\<lparr>references := (references (metadata ?st5))
          \<lparr>laws_clauses_articles_acts :=
             laws_clauses_articles_acts (references (metadata ?st5)) @ L\<rparr>\<rparr>\<rparr>)"
    by (simp only: f)
  finally have e: "extract_legal_metadata_state nlp doc fn =
     Inr (?st5\<lparr>seen_clauses := S,
        metadata := (metadata ?st5)\<lparr>references := (references (metadata ?st5))
          \<lparr>laws_clauses_articles_acts :=
             laws_clauses_articles_acts (references (metadata ?st5)) @ L\<rparr>\<rparr>\<rparr>)" .
  have pg': "\<forall>r\<in>set L. clause_page_number r = find_page (reference r) doc"
    using pg unfolding st5 by simp
  show ?thesis
    apply (rule exI [of _ S])
    apply (rule exI [of _ L])
    apply (rule conjI)
     apply (subst e)
     apply (subst st5)+
     apply simp
    apply (rule pg')
    done
qed

section \<open>Dates as strings\<close>



























section \<open>Date keys, page resolution, assembly\<close>




lemma match_keys_iff:
  "(d, s, e) \<in> set (match_keys t ms) \<longleftrightarrow>
     (\<exists>g. (s, e, g) \<in> set ms \<and> normalize_date (slice t s e) = Some d)"
  by (induction ms) (auto simp add: match_keys_def split: option.splits)

lemma date_keys_iff:
  "(d, s, e) \<in> date_keys t \<longleftrightarrow>
     (\<exists>p g. p \<in> set date_patterns \<and> (s, e, g) \<in> set (finditer False p t)
        \<and> normalize_date (slice t s e) = Some d)"
  unfolding date_keys_def set_concat by (auto simp add: match_keys_iff)


lemma finite_date_keys: "finite (date_keys t)"
  by (simp add: date_keys_def)

lemma set_sorted_keys: "set (sorted_keys t) = date_keys t"
  by (simp add: sorted_keys_def finite_date_keys)



lemma sorted_keys_Nil: "sorted_keys t = [] \<longleftrightarrow> date_keys t = {}"
  by (simp add: sorted_keys_def finite_date_keys)

lemma hd_sorted_keys: "date_keys t \<noteq> {} \<Longrightarrow> hd (sorted_keys t) = Min (date_keys t)"
  using sorted_list_of_set_nonempty [OF finite_date_keys, of t]
  by (simp add: sorted_keys_def)



lemma starts_with_iff: "starts_with t s \<longleftrightarrow> (\<exists>post. t = s @ post)"
  unfolding starts_with_def
  by (metis append_eq_conv_conj append_take_drop_id)

lemma contains_iff: "contains t s \<longleftrightarrow> (\<exists>pre post. t = pre @ s @ post)"
proof (induction t)
  case Nil
  then show ?case by auto
next
  case (Cons c cs)
  show ?case
  proof
    assume "contains (c # cs) s"
    then consider "starts_with (c # cs) s" | "contains cs s" by auto
    then show "\<exists>pre post. c # cs = pre @ s @ post"
    proof cases
      case 1
      then obtain post where "c # cs = s @ post" unfolding starts_with_iff by blast
      then have "c # cs = [] @ s @ post" by simp
      then show ?thesis by blast
    next
      case 2
      then obtain pre post where "cs = pre @ s @ post" using Cons.IH by blast
      then have "c # cs = (c # pre) @ s @ post" by simp
      then show ?thesis by blast
    qed
  next
    assume "\<exists>pre post. c # cs = pre @ s @ post"
    then obtain pre post where e: "c # cs = pre @ s @ post" by blast
    show "contains (c # cs) s"
    proof (cases pre)
      case Nil
      with e have "starts_with (c # cs) s" unfolding starts_with_iff by auto
      then show ?thesis by simp
    next
      case (Cons p ps)
      with e have "cs = ps @ s @ post" by simp
      then have "contains cs s" using Cons.IH by blast
      then show ?thesis by simp
    qed
  qed
qed

lemma contains_Nil: "contains [] s \<longleftrightarrow> s = []"
  by simp

lemma find_page_in_first:
  "(find_page_in s els = - 1 \<and> (\<forall>el\<in>set els. \<not> contains (get_text el) s))
   \<or> (\<exists>i<length els. contains (get_text (els ! i)) s
         \<and> (\<forall>j<i. \<not> contains (get_text (els ! j)) s)
         \<and> find_page_in s els = el_page_number (els ! i))"
proof (induction els)
  case Nil
  then show ?case by simp
next
  case (Cons el els)
  show ?case
  proof (cases "contains (get_text el) s")
    case True
    then have "contains (get_text ((el # els) ! 0)) s
       \<and> (\<forall>j<0. \<not> contains (get_text ((el # els) ! j)) s)
       \<and> find_page_in s (el # els) = el_page_number ((el # els) ! 0)" by simp
    then show ?thesis by blast
  next
    case False
    from Cons.IH show ?thesis
    proof
      assume "find_page_in s els = - 1 \<and> (\<forall>el\<in>set els. \<not> contains (get_text el) s)"
      with False show ?thesis by simp
    next
      assume "\<exists>i<length els. contains (get_text (els ! i)) s
         \<and> (\<forall>j<i. \<not> contains (get_text (els ! j)) s)
         \<and> find_page_in s els = el_page_number (els ! i)"
      then obtain i where i: "i < length els" "contains (get_text (els ! i)) s"
        "\<forall>j<i. \<not> contains (get_text (els ! j)) s"
        "find_page_in s els = el_page_number (els ! i)" by blast
      have "\<forall>j<Suc i. \<not> contains (get_text ((el # els) ! j)) s"
      proof (intro allI impI)
        fix j assume "j < Suc i"
        then show "\<not> contains (get_text ((el # els) ! j)) s"
          using False i(3) by (cases j) auto
      qed
      with i False have "Suc i < length (el # els)
         \<and> contains (get_text ((el # els) ! Suc i)) s
         \<and> (\<forall>j<Suc i. \<not> contains (get_text ((el # els) ! j)) s)
         \<and> find_page_in s (el # els) = el_page_number ((el # els) ! Suc i)" by simp
      then show ?thesis by blast
    qed
  qed
qed

lemma find_page_in_range:
  "find_page_in s els = - 1 \<or> find_page_in s els \<in> el_page_number ` set els"
  by (induction els) auto

lemma find_page_range:
  "find_page s doc = - 1 \<or> find_page s doc \<in> el_page_number ` set (content doc)"
  unfolding find_page_def by (rule find_page_in_range)

lemma figure_no_match: "s \<noteq> [] \<Longrightarrow> is_figure el \<Longrightarrow> \<not> contains (get_text el) s"
  by (cases el) (simp_all add: get_text_def)

lemma find_page_in_skip_figures:
  "s \<noteq> [] \<Longrightarrow> find_page_in s els = find_page_in s (filter (\<lambda>el. \<not> is_figure el) els)"
  by (induction els) (auto simp add: figure_no_match)

lemma text_field_contains:
  "s \<noteq> [] \<Longrightarrow> contains (get_text el) s \<longleftrightarrow> (\<exists>x. text_field el = Some x \<and> contains x s)"
  by (cases el) (simp_all add: get_text_def)

lemma page_elements_numbers:
  "el_page_number ` set (extract_elements_from_page pg pn) = {pn}"
  by (auto simp add: extract_elements_from_page_def paragraph_elements_def table_element_def
      Let_def split: if_splits)

lemma assembled_Cons:
  "concat (map (\<lambda>(i, pg). extract_elements_from_page pg (int i + 1)) (enumerate n (pg # pages)))
     = extract_elements_from_page pg (int n + 1) @
       concat (map (\<lambda>(i, pg). extract_elements_from_page pg (int i + 1)) (enumerate (Suc n) pages))"
  by simp

lemma assembled_numbers:
  "el_page_number ` set (concat (map (\<lambda>(i, pg). extract_elements_from_page pg (int i + 1))
       (enumerate n pages))) = {int n + 1 .. int n + int (length pages)}"
proof (induction pages arbitrary: n)
  case Nil
  then show ?case by simp
next
  case (Cons pg pages)
  have "el_page_number ` set (concat (map (\<lambda>(i, pg). extract_elements_from_page pg (int i + 1))
       (enumerate n (pg # pages)))) =
     {int n + 1} \<union> {int (Suc n) + 1 .. int (Suc n) + int (length pages)}"
    by (simp only: assembled_Cons set_append image_Un page_elements_numbers Cons.IH)
  also have "\<dots> = {int n + 1 .. int n + int (length (pg # pages))}"
    by auto
  finally show ?case .
qed

lemma parse_document_numbers:
  "el_page_number ` set (content (parse_document pages)) = {1 .. int (length pages)}"
  using assembled_numbers [of 0 pages] by (simp add: parse_document_def)

lemma assembled_sorted:
  "sorted (map el_page_number (concat (map (\<lambda>(i, pg). extract_elements_from_page pg (int i + 1))
       (enumerate n pages))))"
proof (induction pages arbitrary: n)
  case Nil
  then show ?case by simp
next
  case (Cons pg pages)
  let ?here = "extract_elements_from_page pg (int n + 1)"
  let ?rest = "concat (map (\<lambda>(i, pg). extract_elements_from_page pg (int i + 1))
       (enumerate (Suc n) pages))"
  have h: "\<forall>x\<in>set ?here. el_page_number x = int n + 1"
    using page_elements_numbers [of pg "int n + 1"] by auto
  then have "map el_page_number ?here = replicate (length ?here) (int n + 1)"
    by (simp add: map_replicate_const [symmetric] cong: map_cong)
  then have s1: "sorted (map el_page_number ?here)"
    by (simp add: sorted_replicate)
  have "\<forall>p\<in>el_page_number ` set ?rest. int n + 1 \<le> p"
    unfolding assembled_numbers [of "Suc n" pages] by simp
  then have r: "\<forall>y\<in>set ?rest. int n + 1 \<le> el_page_number y"
    by blast
  have "sorted (map el_page_number ?here @ map el_page_number ?rest)"
    unfolding sorted_append using s1 Cons.IH [of "Suc n"] h r by auto
  then show ?case by (simp only: assembled_Cons map_append)
qed

lemma parse_document_sorted:
  "sorted (map el_page_number (content (parse_document pages)))"
  using assembled_sorted [of 0 pages] by (simp add: parse_document_def)

lemma get_text_recaption: "get_text (recaption h el) = get_text el"
  by (cases el) (simp_all add: get_text_def)

lemma page_recaption: "el_page_number (recaption h el) = el_page_number el"
  by (cases el) simp_all

lemma find_page_in_recaption:
  "find_page_in s (map (recaption h) els) = find_page_in s els"
  by (induction els) (simp_all add: get_text_recaption page_recaption)

lemma get_text_figure: "is_figure el \<Longrightarrow> get_text el = []"
  by (cases el) (simp_all add: get_text_def)

lemma distinct_keep_first: "distinct (keep_first xs)"
  by (induction xs) simp_all

lemma set_keep_first: "set (keep_first xs) = set xs"
  by (induction xs) auto

lemma person_candidates_filter:
  "person_candidates (filter (\<lambda>ent. \<not> stop_listed ent) ents) = person_candidates ents"
  by (induction ents) (auto simp add: person_candidates_def stop_listed_def is_valid_name_def)

lemma person_fold_filter:
  "fold person_step (filter (\<lambda>ent. \<not> stop_listed ent) ents) st = fold person_step ents st"
  by (simp only: persons_fold person_candidates_filter)

lemma extract_ignores_stop_listed:
  "extract_legal_metadata (\<lambda>t. filter (\<lambda>ent. \<not> stop_listed ent) (nlp t)) doc fn =
     extract_legal_metadata nlp doc fn"
  by (simp only: extract_legal_metadata_def extract_legal_metadata_state_def after_dates_def
      Let_def person_fold_filter)

lemma person_candidates_eq:
  "person_candidates ents =
     map (\<lambda>ent. strip (fst ent))
       (filter (\<lambda>ent. snd ent = ''PERSON'' \<and> strip (fst ent) \<noteq> [] \<and> fst ent \<notin> generic_terms) ents)"
proof -
  have "(\<lambda>ent::string \<times> string. snd ent = ''PERSON'' \<and> is_valid_name (fst ent)) =
     (\<lambda>ent. snd ent = ''PERSON'' \<and> strip (fst ent) \<noteq> [] \<and> fst ent \<notin> generic_terms)"
    by (auto simp add: is_valid_name_def strip_def)
  then show ?thesis by (simp add: person_candidates_def)
qed

section \<open>The metadata record in closed form\<close>

lemma extract_metadata:
  fixes nlp doc fn
  defines "t \<equiv> all_text_of doc"
  shows "\<exists>L. extract_legal_metadata nlp doc fn =
     Inr \<lparr>document_name = fn,
          document_date = (if sorted_keys t = [] then ''not found'' else fst (hd (sorted_keys t))),
          dates = map (date_entry t) (sorted_keys t),
          references = \<lparr>
            letters_mentioned = map (\<lambda>m. \<lparr>name = m, page_number = find_page m doc\<rparr>)
               (filter is_valid_name (findall1 True letter_rx t)),
            laws_clauses_articles_acts = L,
            persons = map (\<lambda>n. \<lparr>name = n, page_number = find_page n doc\<rparr>)
               (keep_first (person_candidates (nlp t)))\<rparr>\<rparr>
     \<and> (\<forall>r\<in>set L. clause_page_number r = find_page (reference r) doc)"
proof -
  from extract_state [of nlp doc fn] obtain S L where
    e: "extract_legal_metadata_state nlp doc fn =
     Inr \<lparr>parsed_doc = doc,
          metadata = \<lparr>document_name = fn,
            document_date = (if sorted_keys t = [] then ''not found'' else fst (hd (sorted_keys t))),
            dates = map (date_entry t) (sorted_keys t),
            references = \<lparr>
              letters_mentioned = map (\<lambda>m. \<lparr>name = m, page_number = find_page m doc\<rparr>)
                 (filter is_valid_name (findall1 True letter_rx t)),
              laws_clauses_articles_acts = L,
              persons = map (\<lambda>n. \<lparr>name = n, page_number = find_page n doc\<rparr>)
                 (keep_first (person_candidates (nlp t)))\<rparr>\<rparr>,
          found_dates = date_keys t,
          seen_persons = set (person_candidates (nlp t)),
          seen_clauses = S\<rparr>"
    and pg: "\<forall>r\<in>set L. clause_page_number r = find_page (reference r) doc"
    unfolding t_def by blast
  show ?thesis
    apply (rule exI [of _ L])
    apply (rule conjI)
     apply (simp add: extract_legal_metadata_def e)
    apply (rule pg)
    done
qed

lemma extract_parts:
  "\<exists>md. extract_legal_metadata nlp doc fn = Inr md
     \<and> dates md = map (date_entry (all_text_of doc)) (sorted_keys (all_text_of doc))
     \<and> document_date md = (if sorted_keys (all_text_of doc) = [] then ''not found''
          else fst (hd (sorted_keys (all_text_of doc))))
     \<and> letters_mentioned (references md) =
          map (\<lambda>m. \<lparr>name = m, page_number = find_page m doc\<rparr>)
            (filter is_valid_name (findall1 True letter_rx (all_text_of doc)))
     \<and> persons (references md) =
          map (\<lambda>n. \<lparr>name = n, page_number = find_page n doc\<rparr>)
            (keep_first (person_candidates (nlp (all_text_of doc))))
     \<and> (\<forall>r\<in>set (laws_clauses_articles_acts (references md)).
          clause_page_number r = find_page (reference r) doc)"
proof -
  from extract_metadata [of nlp doc fn] obtain L where
    e: "extract_legal_metadata nlp doc fn =
     Inr \<lparr>document_name = fn,
          document_date = (if sorted_keys (all_text_of doc) = [] then ''not found''
             else fst (hd (sorted_keys (all_text_of doc)))),
          dates = map (date_entry (all_text_of doc)) (sorted_keys (all_text_of doc)),
          references = \<lparr>
            letters_mentioned = map (\<lambda>m. \<lparr>name = m, page_number = find_page m doc\<rparr>)
               (filter is_valid_name (findall1 True letter_rx (all_text_of doc))),
            laws_clauses_articles_acts = L,
            persons = map (\<lambda>n. \<lparr>name = n, page_number = find_page n doc\<rparr>)
               (keep_first (person_candidates (nlp (all_text_of doc))))\<rparr>\<rparr>"
    and pg: "\<forall>r\<in>set L. clause_page_number r = find_page (reference r) doc"
    by blast
  show ?thesis
    apply (rule exI [of _ "\<lparr>document_name = fn,
          document_date = (if sorted_keys (all_text_of doc) = [] then ''not found''
             else fst (hd (sorted_keys (all_text_of doc)))),
          dates = map (date_entry (all_text_of doc)) (sorted_keys (all_text_of doc)),
          references = \<lparr>
            letters_mentioned = map (\<lambda>m. \<lparr>name = m, page_number = find_page m doc\<rparr>)
               (filter is_valid_name (findall1 True letter_rx (all_text_of doc))),
            laws_clauses_articles_acts = L,
            persons = map (\<lambda>n. \<lparr>name = n, page_number = find_page n doc\<rparr>)
               (keep_first (person_candidates (nlp (all_text_of doc))))\<rparr>\<rparr>"])
    apply (simp add: e pg)
    done
qed

lemma count_list_filter:
  "count_list (filter P xs) x = (if P x then count_list xs x else 0)"
  by (induction xs) auto


lemma normalize_date_cases:
  "normalize_date x =
     (case strptime x fmt_ymd of
        Inr dt \<Rightarrow> Some (strftime_iso dt)
      | Inl _ \<Rightarrow>
         (case strptime x fmt_dmy of
            Inr dt \<Rightarrow> Some (strftime_iso dt)
          | Inl _ \<Rightarrow>
             (case strptime x fmt_dBY of
                Inr dt \<Rightarrow> Some (strftime_iso dt)
              | Inl _ \<Rightarrow> None)))"
  by (simp add: normalize_date_def split: sum.splits)


lemma find_page_ok: "page_ok pages (find_page s (parse_document pages))"
  using find_page_range [of s "parse_document pages"] parse_document_numbers [of pages]
  unfolding page_ok_def by auto

lemma join_map_cong: "ys = zs \<Longrightarrow> join sep ys = join sep zs"
  by (rule arg_cong)

lemma text_field_page_in_eq:
  "s \<noteq> [] \<Longrightarrow> find_page_in s els = text_field_page_in s els"
proof (induction els)
  case Nil
  then show ?case by simp
next
  case (Cons el els)
  then show ?case by (cases el) (simp_all add: get_text_def)
qed

section \<open>Evaluated examples\<close>

lemma dated_text: "all_text_of example_dated = ''15 March 2023 2022-01-01 2022-01-01 ''"
  by code_simp

lemma dated_keys:
  "sorted_keys ''15 March 2023 2022-01-01 2022-01-01 '' =
     [(''2022-01-01'', 14, 24), (''2022-01-01'', 25, 35), (''2023-03-15'', 0, 13)]"
  by code_simp

lemma undated_text:
  "all_text_of example_undated = ''2024-13-45 31/02/2024 01/02/24 5 Marchh 2023 ''"
  by code_simp

lemma undated_matches:
  "map (\<lambda>p. map (\<lambda>m. group0 ''2024-13-45 31/02/2024 01/02/24 5 Marchh 2023 '' m)
         (finditer False p ''2024-13-45 31/02/2024 01/02/24 5 Marchh 2023 '')) date_patterns
     = [[''2024-13-45''], [''31/02/2024'', ''01/02/24''], [''5 Marchh 2023'']]"
  by code_simp

lemma undated_keys: "sorted_keys ''2024-13-45 31/02/2024 01/02/24 5 Marchh 2023 '' = []"
  by code_simp

lemma undated_normalize:
  "map normalize_date [''2024-13-45'', ''31/02/2024'', ''01/02/24'', ''5 Marchh 2023'',
      ''2024-01-31'', ''1/2/2024'', ''5 march 2023'']
     = [None, None, None, None, Some ''2024-01-31'', Some ''2024-02-01'', Some ''2023-03-05'']"
  by code_simp


lemma letters_text: "all_text_of example_letters = ''Letter No. A-1 Letter No. A-1 ''"
  by code_simp

lemma letters_found:
  "filter is_valid_name (findall1 True letter_rx ''Letter No. A-1 Letter No. A-1 '')
     = [''A-1'', ''A-1'']"
  by code_simp

lemma tagged_persons:
  "keep_first (person_candidates [(''Contractor'', ''PERSON''), (''John Smith'', ''PERSON''),
     ('' John Smith'', ''PERSON''), (''Acme'', ''ORG''), (''  '', ''PERSON'')]) = [''John Smith'']"
  by code_simp

lemma example_pages_eval:
  "map_sum id (\<lambda>md. (map page_number (persons (references md)),
                      map page_number (letters_mentioned (references md)),
                      map clause_page_number (laws_clauses_articles_acts (references md))))
     (extract_legal_metadata sir_tagger (parse_document example_pages) ''a.pdf'')
   = Inr ([1], [3], [2])"
  by code_simp

lemma example_figure_eval:
  "map (\<lambda>el. case el of Figure f c pn \<Rightarrow> (pn, c) | Paragraph t pn b \<Rightarrow> (pn, t)
               | Table t h pn \<Rightarrow> (pn, t)) (content example_figure)
     = [(1, ''Figure 1: Site plan''), (2, ''Site''), (2, ''office''), (2, [])]
   \<and> find_page ''Site'' (example_figure\<lparr>content :=
         filter (\<lambda>el. \<not> is_figure el) (content example_figure)\<rparr>) = 2
   \<and> find_page ''plan'' (example_figure\<lparr>content :=
         filter (\<lambda>el. \<not> is_figure el) (content example_figure)\<rparr>) = - 1
   \<and> all_text_of example_figure = '' Site office ''"
  by code_simp

lemma three_pages_eval:
  "text_field_page ''Gamma'' example_three_pages = 3
   \<and> text_field_page ''Delta'' example_three_pages = - 1"
  by code_simp

section \<open>Clause, article and act references\<close>

text \<open>
  C1. The claim: each match of \<^verbatim>\<open>(Clause|Article|Act)\s+\d+(\.\d+)?\<close> is rendered as the
  kind, one space and the full matched number, so that \<^verbatim>\<open>Article 5\<close> gives the reference
  \<^verbatim>\<open>Article 5\<close>, and \<^verbatim>\<open>Clause 4.2\<close> and \<^verbatim>\<open>Clause   4.2\<close> give the single reference
  \<^verbatim>\<open>Clause 4.2\<close>. The code renders the kind and the second group, and the number before
  the dot is in no group: a page with the words \<^verbatim>\<open>Article\<close> and \<^verbatim>\<open>5\<close> gives the reference
  \<^verbatim>\<open>Article\<close>, and a table row with the cells \<^verbatim>\<open>Clause 4.2\<close> and \<^verbatim>\<open>Clause   4.2\<close> gives the
  single reference \<^verbatim>\<open>Clause .2\<close>.
\<close>

theorem clause_reference_omits_number:
  "all_text_of (parse_document [page_of_words [''Article'', ''5'']]) = ''Article 5 ''
   \<and> map_sum id (\<lambda>md. laws_clauses_articles_acts (references md))
        (extract_legal_metadata no_entities (parse_document [page_of_words [''Article'', ''5'']])
           ''a.pdf'')
     = Inr [\<lparr>reference = ''Article'', type = ''article'', clause_page_number = 1\<rparr>]
   \<and> all_text_of (parse_document [page_of_table [[''Clause 4.2'', ''Clause   4.2'']]])
     = ''Clause 4.2 | Clause   4.2 ''
   \<and> map_sum id (\<lambda>md. laws_clauses_articles_acts (references md))
        (extract_legal_metadata no_entities
           (parse_document [page_of_table [[''Clause 4.2'', ''Clause   4.2'']]]) ''a.pdf'')
     = Inr [\<lparr>reference = ''Clause .2'', type = ''clause'', clause_page_number = - 1\<rparr>]"
  by code_simp

section \<open>The document date\<close>

text \<open>
  C2. For every parsed document and document name, the extraction returns a metadata record
  whose \<^verbatim>\<open>document_date\<close> is the date of the first entry of the sorted, deduplicated dates
  sequence, which is the first component of the least (ISO date, start, end) key, when a date
  was found, and the string \<^verbatim>\<open>not found\<close> when none was.
\<close>

theorem document_date_earliest:
  "\<exists>md. extract_legal_metadata nlp doc fn = Inr md
     \<and> dates md = map (date_entry (all_text_of doc)) (sorted_keys (all_text_of doc))
     \<and> document_date md = (if dates md = [] then ''not found'' else date (hd (dates md)))
     \<and> document_date md = (if date_keys (all_text_of doc) = {} then ''not found''
          else fst (Min (date_keys (all_text_of doc))))"
proof -
  let ?t = "all_text_of doc"
  from extract_parts [of nlp doc fn] obtain md where
    e: "extract_legal_metadata nlp doc fn = Inr md"
    and d: "dates md = map (date_entry ?t) (sorted_keys ?t)"
    and dd: "document_date md =
       (if sorted_keys ?t = [] then ''not found'' else fst (hd (sorted_keys ?t)))"
    by blast
  have a: "document_date md = (if dates md = [] then ''not found'' else date (hd (dates md)))"
    unfolding d dd by (simp add: hd_map date_of_entry)
  have b: "document_date md = (if date_keys ?t = {} then ''not found''
          else fst (Min (date_keys ?t)))"
    unfolding dd using hd_sorted_keys [of ?t] by (simp add: sorted_keys_Nil)
  from e d a b show ?thesis by blast
qed

theorem document_date_earliest_witness:
  "(\<exists>md. extract_legal_metadata no_entities example_dated ''a.pdf'' = Inr md
      \<and> map date (dates md) = [''2022-01-01'', ''2022-01-01'', ''2023-03-15'']
      \<and> document_date md = ''2022-01-01'')
   \<and> (\<exists>md. extract_legal_metadata no_entities example_undated ''a.pdf'' = Inr md
      \<and> dates md = [] \<and> document_date md = ''not found'')"
proof -
  from document_date_earliest [of no_entities example_dated "''a.pdf''"] obtain md where
    e: "extract_legal_metadata no_entities example_dated ''a.pdf'' = Inr md"
    and d: "dates md = map (date_entry (all_text_of example_dated))
       (sorted_keys (all_text_of example_dated))"
    and dd: "document_date md = (if dates md = [] then ''not found'' else date (hd (dates md)))"
    by blast
  have m: "map date (dates md) = [''2022-01-01'', ''2022-01-01'', ''2023-03-15'']"
    unfolding d dated_text dated_keys by (simp add: date_of_entry)
  have "document_date md = ''2022-01-01''"
    unfolding dd unfolding d dated_text dated_keys by (simp add: date_of_entry)
  then have a: "\<exists>md. extract_legal_metadata no_entities example_dated ''a.pdf'' = Inr md
      \<and> map date (dates md) = [''2022-01-01'', ''2022-01-01'', ''2023-03-15'']
      \<and> document_date md = ''2022-01-01''"
    using e m by (intro exI [of _ md] conjI)
  from document_date_earliest [of no_entities example_undated "''a.pdf''"] obtain md' where
    e': "extract_legal_metadata no_entities example_undated ''a.pdf'' = Inr md'"
    and d': "dates md' = map (date_entry (all_text_of example_undated))
       (sorted_keys (all_text_of example_undated))"
    and dd': "document_date md' = (if dates md' = [] then ''not found'' else date (hd (dates md')))"
    by blast
  have n: "dates md' = []" unfolding d' undated_text undated_keys by simp
  have "document_date md' = ''not found''" unfolding dd' n by simp
  then have b: "\<exists>md. extract_legal_metadata no_entities example_undated ''a.pdf'' = Inr md
      \<and> dates md = [] \<and> document_date md = ''not found''"
    using e' n by (intro exI [of _ md'] conjI)
  from a b show ?thesis by (rule conjI)
qed

section \<open>Deduplication and order of the dates\<close>




section \<open>The page resolver\<close>

text \<open>
  C4, as amended. For every fragment and every parsed document, the resolver returns the
  page number of the first content element whose text contains the fragment as a contiguous
  block, the text of an element without a \<^verbatim>\<open>text\<close> field (a figure) being the empty string,
  and \<open>-1\<close> when no element does. For a non-empty fragment that element is the first one
  whose \<^verbatim>\<open>text\<close> field contains the fragment.
\<close>

theorem find_page_first_containing:
  "((find_page s doc = - 1 \<and> (\<forall>el\<in>set (content doc). \<not> contains (get_text el) s))
     \<or> (\<exists>i<length (content doc). contains (get_text (content doc ! i)) s
           \<and> (\<forall>j<i. \<not> contains (get_text (content doc ! j)) s)
           \<and> find_page s doc = el_page_number (content doc ! i)))
   \<and> (\<forall>t. contains t s \<longleftrightarrow> (\<exists>pre post. t = pre @ s @ post))
   \<and> (\<forall>el. get_text el = (case text_field el of None \<Rightarrow> [] | Some x \<Rightarrow> x))
   \<and> (s \<noteq> [] \<longrightarrow> find_page s doc = text_field_page s doc)"
proof -
  have a: "(find_page s doc = - 1 \<and> (\<forall>el\<in>set (content doc). \<not> contains (get_text el) s))
     \<or> (\<exists>i<length (content doc). contains (get_text (content doc ! i)) s
           \<and> (\<forall>j<i. \<not> contains (get_text (content doc ! j)) s)
           \<and> find_page s doc = el_page_number (content doc ! i))"
    unfolding find_page_def by (rule find_page_in_first)
  have b: "\<forall>t. contains t s \<longleftrightarrow> (\<exists>pre post. t = pre @ s @ post)"
    using contains_iff by blast
  have c: "\<forall>el. get_text el = (case text_field el of None \<Rightarrow> [] | Some x \<Rightarrow> x)"
    by (simp add: get_text_def)
  have d: "s \<noteq> [] \<longrightarrow> find_page s doc = text_field_page s doc"
    by (simp add: find_page_def text_field_page_def text_field_page_in_eq)
  from a b c d show ?thesis by blast
qed

theorem find_page_first_containing_witness:
  "find_page ''Gamma'' example_three_pages = 3 \<and> find_page ''Delta'' example_three_pages = - 1"
proof -
  have a: "''Gamma'' \<noteq> []" "''Delta'' \<noteq> []" by simp_all
  from find_page_first_containing [of "''Gamma''" example_three_pages] a(1) three_pages_eval
  have g: "find_page ''Gamma'' example_three_pages = 3" by simp
  from find_page_first_containing [of "''Delta''" example_three_pages] a(2) three_pages_eval
  have d: "find_page ''Delta'' example_three_pages = - 1" by simp
  from g d show ?thesis by simp
qed

text \<open>
  The claim as stated, with only the elements that have a \<^verbatim>\<open>text\<close> field: for the empty
  fragment and a document whose first page has no words, the code answers with the page of
  that page's figure, while the first element whose \<^verbatim>\<open>text\<close> field contains the fragment is
  the paragraph on page 2.
\<close>

theorem find_page_empty_fragment_figure:
  "find_page [] example_blank_first = 1 \<and> text_field_page [] example_blank_first = 2"
  by code_simp

section \<open>Page numbers of the references\<close>

text \<open>
  C5. For every document assembled from a sequence of pages, the page number of every
  person, letter and clause reference of the extracted metadata is \<open>-1\<close> or the page number
  of a content element of the document, between 1 and the number of pages; the page numbers
  of the assembled elements are exactly 1 to the number of pages, in ascending order.
\<close>

theorem reference_pages_valid:
  "\<exists>md. extract_legal_metadata nlp (parse_document pages) fn = Inr md
     \<and> (\<forall>r\<in>set (persons (references md)). page_ok pages (page_number r))
     \<and> (\<forall>r\<in>set (letters_mentioned (references md)). page_ok pages (page_number r))
     \<and> (\<forall>r\<in>set (laws_clauses_articles_acts (references md)).
           page_ok pages (clause_page_number r))
     \<and> el_page_number ` set (content (parse_document pages)) = {1 .. int (length pages)}
     \<and> sorted (map el_page_number (content (parse_document pages)))"
proof -
  let ?doc = "parse_document pages"
  from extract_parts [of nlp ?doc fn] obtain md where
    e: "extract_legal_metadata nlp ?doc fn = Inr md"
    and l: "letters_mentioned (references md) =
          map (\<lambda>m. \<lparr>name = m, page_number = find_page m ?doc\<rparr>)
            (filter is_valid_name (findall1 True letter_rx (all_text_of ?doc)))"
    and p: "persons (references md) =
          map (\<lambda>n. \<lparr>name = n, page_number = find_page n ?doc\<rparr>)
            (keep_first (person_candidates (nlp (all_text_of ?doc))))"
    and c: "\<forall>r\<in>set (laws_clauses_articles_acts (references md)).
          clause_page_number r = find_page (reference r) ?doc"
    by blast
  have a: "\<forall>r\<in>set (persons (references md)). page_ok pages (page_number r)"
    unfolding p by (auto simp add: find_page_ok)
  have b: "\<forall>r\<in>set (letters_mentioned (references md)). page_ok pages (page_number r)"
    unfolding l by (auto simp add: find_page_ok)
  have c': "\<forall>r\<in>set (laws_clauses_articles_acts (references md)).
           page_ok pages (clause_page_number r)"
    using c by (simp add: find_page_ok)
  from e a b c' parse_document_numbers [of pages] parse_document_sorted [of pages]
  show ?thesis by blast
qed

theorem reference_pages_valid_witness:
  "\<exists>md. extract_legal_metadata sir_tagger (parse_document example_pages) ''a.pdf'' = Inr md
      \<and> map page_number (persons (references md)) = [1]
      \<and> map page_number (letters_mentioned (references md)) = [3]
      \<and> map clause_page_number (laws_clauses_articles_acts (references md)) = [2]
      \<and> el_page_number ` set (content (parse_document example_pages)) = {1 .. 3}"
proof -
  from reference_pages_valid [of sir_tagger example_pages "''a.pdf''"] obtain md where
    e: "extract_legal_metadata sir_tagger (parse_document example_pages) ''a.pdf'' = Inr md"
    and r: "el_page_number ` set (content (parse_document example_pages))
       = {1 .. int (length example_pages)}"
    by blast
  have l: "int (length example_pages) = 3" by (simp add: example_pages_def)
  from example_pages_eval have
    "map page_number (persons (references md)) = [1]"
    "map page_number (letters_mentioned (references md)) = [3]"
    "map clause_page_number (laws_clauses_articles_acts (references md)) = [2]"
    unfolding e by simp_all
  then show ?thesis
    using e r [unfolded l] by (intro exI [of _ md] conjI)
qed

section \<open>Persons\<close>

text \<open>
  C6. For every sequence of tagged spans, the names of \<^verbatim>\<open>persons\<close> are the trimmed texts
  of the spans labelled \<^verbatim>\<open>PERSON\<close> whose text is not blank and not a stop-list term, each
  name kept at its first occurrence only, in tagger order; removing from the tagger's output
  every person span whose text is a stop-list term or blank leaves the result unchanged.
\<close>

theorem persons_filtered_and_deduplicated:
  "\<exists>md. extract_legal_metadata nlp doc fn = Inr md
     \<and> persons (references md) =
          map (\<lambda>n. \<lparr>name = n, page_number = find_page n doc\<rparr>)
            (keep_first (person_candidates (nlp (all_text_of doc))))
     \<and> person_candidates (nlp (all_text_of doc)) =
          map (\<lambda>ent. strip (fst ent))
            (filter (\<lambda>ent. snd ent = ''PERSON'' \<and> strip (fst ent) \<noteq> []
                       \<and> fst ent \<notin> generic_terms)
               (nlp (all_text_of doc)))
     \<and> map name (persons (references md)) = keep_first (person_candidates (nlp (all_text_of doc)))
     \<and> distinct (map name (persons (references md)))
     \<and> extract_legal_metadata (\<lambda>t. filter (\<lambda>ent. \<not> stop_listed ent) (nlp t)) doc fn = Inr md"
proof -
  let ?cs = "person_candidates (nlp (all_text_of doc))"
  from extract_parts [of nlp doc fn] obtain md where
    e: "extract_legal_metadata nlp doc fn = Inr md"
    and p: "persons (references md) =
          map (\<lambda>n. \<lparr>name = n, page_number = find_page n doc\<rparr>) (keep_first ?cs)"
    by blast
  have n: "map name (persons (references md)) = keep_first ?cs"
    unfolding p by (simp add: comp_def)
  have d: "distinct (map name (persons (references md)))"
    unfolding n by (rule distinct_keep_first)
  have f: "extract_legal_metadata (\<lambda>t. filter (\<lambda>ent. \<not> stop_listed ent) (nlp t)) doc fn = Inr md"
    unfolding extract_ignores_stop_listed by (rule e)
  from e p n d f person_candidates_eq [of "nlp (all_text_of doc)"] show ?thesis by blast
qed

theorem persons_filtered_and_deduplicated_witness:
  "\<exists>md. extract_legal_metadata example_tagger example_three_pages ''a.pdf'' = Inr md
      \<and> map name (persons (references md)) = [''John Smith'']"
proof -
  from persons_filtered_and_deduplicated [of example_tagger example_three_pages "''a.pdf''"]
  obtain md where
    e: "extract_legal_metadata example_tagger example_three_pages ''a.pdf'' = Inr md"
    and n: "map name (persons (references md)) =
       keep_first (person_candidates (example_tagger (all_text_of example_three_pages)))"
    by blast
  have "map name (persons (references md)) = [''John Smith'']"
    unfolding n example_tagger_def tagged_persons ..
  then show ?thesis
    using e by (intro exI [of _ md] conjI)
qed

section \<open>Letters\<close>

text \<open>
  C7. The letter entries are the matches of the letter pattern that pass the name filter,
  in match order and with their multiplicity: an identifier that passes the filter occurs in
  \<^verbatim>\<open>letters_mentioned\<close> as many times as the pattern matched it.
\<close>

theorem letters_not_deduplicated:
  "\<exists>md. extract_legal_metadata nlp doc fn = Inr md
     \<and> letters_mentioned (references md) =
          map (\<lambda>m. \<lparr>name = m, page_number = find_page m doc\<rparr>)
            (filter is_valid_name (findall1 True letter_rx (all_text_of doc)))
     \<and> map name (letters_mentioned (references md)) =
          filter is_valid_name (findall1 True letter_rx (all_text_of doc))
     \<and> (\<forall>x. count_list (map name (letters_mentioned (references md))) x =
          (if is_valid_name x then count_list (findall1 True letter_rx (all_text_of doc)) x
           else 0))"
proof -
  let ?ms = "findall1 True letter_rx (all_text_of doc)"
  from extract_parts [of nlp doc fn] obtain md where
    e: "extract_legal_metadata nlp doc fn = Inr md"
    and l: "letters_mentioned (references md) =
          map (\<lambda>m. \<lparr>name = m, page_number = find_page m doc\<rparr>) (filter is_valid_name ?ms)"
    by blast
  have n: "map name (letters_mentioned (references md)) = filter is_valid_name ?ms"
    unfolding l by (simp add: comp_def)
  have c: "\<forall>x. count_list (map name (letters_mentioned (references md))) x =
          (if is_valid_name x then count_list ?ms x else 0)"
    unfolding n by (simp add: count_list_filter)
  from e l n c show ?thesis by blast
qed

theorem letters_not_deduplicated_witness:
  "\<exists>md. extract_legal_metadata no_entities example_letters ''a.pdf'' = Inr md
      \<and> map name (letters_mentioned (references md)) = [''A-1'', ''A-1'']"
proof -
  from letters_not_deduplicated [of no_entities example_letters "''a.pdf''"] obtain md where
    e: "extract_legal_metadata no_entities example_letters ''a.pdf'' = Inr md"
    and n: "map name (letters_mentioned (references md)) =
          filter is_valid_name (findall1 True letter_rx (all_text_of example_letters))"
    by blast
  have "map name (letters_mentioned (references md)) = [''A-1'', ''A-1'']"
    unfolding n letters_text letters_found ..
  then show ?thesis
    using e by (intro exI [of _ md] conjI)
qed

section \<open>Unparseable date candidates\<close>

text \<open>
  C8. The extraction always returns. The canonical date of a candidate is given by the first
  of the three formats, tried in the order year-month-day, day/month/year, day month-name
  year, that parses it; a candidate no format parses leaves the collected set as it is, so
  the keys collected are exactly those of the matches with a canonical date.
\<close>

theorem unparseable_dates_dropped:
  "(\<exists>st. extract_legal_metadata_state nlp doc fn = Inr st
       \<and> found_dates st = date_keys (all_text_of doc)
       \<and> dates (metadata st) = map (date_entry (all_text_of doc)) (sorted_keys (all_text_of doc)))
   \<and> (\<forall>d s e. (d, s, e) \<in> date_keys (all_text_of doc) \<longleftrightarrow>
         (\<exists>p g. p \<in> set date_patterns \<and> (s, e, g) \<in> set (finditer False p (all_text_of doc))
            \<and> normalize_date (slice (all_text_of doc) s e) = Some d))
   \<and> (\<forall>s e g st. date_step (all_text_of doc) (s, e, g) st =
         Inr (case normalize_date (slice (all_text_of doc) s e) of
                None \<Rightarrow> st
              | Some d \<Rightarrow> st\<lparr>found_dates := insert (d, s, e) (found_dates st)\<rparr>))
   \<and> (\<forall>x. normalize_date x =
         (case strptime x fmt_ymd of
            Inr dt \<Rightarrow> Some (strftime_iso dt)
          | Inl _ \<Rightarrow>
             (case strptime x fmt_dmy of
                Inr dt \<Rightarrow> Some (strftime_iso dt)
              | Inl _ \<Rightarrow>
                 (case strptime x fmt_dBY of
                    Inr dt \<Rightarrow> Some (strftime_iso dt)
                  | Inl _ \<Rightarrow> None))))"
proof -
  let ?t = "all_text_of doc"
  from extract_state [of nlp doc fn] obtain N DD R P S where
    e: "extract_legal_metadata_state nlp doc fn =
      Inr \<lparr>parsed_doc = doc,
           metadata = \<lparr>document_name = N, document_date = DD,
              dates = map (date_entry ?t) (sorted_keys ?t), references = R\<rparr>,
           found_dates = date_keys ?t, seen_persons = P, seen_clauses = S\<rparr>"
    by blast
  have a: "\<exists>st. extract_legal_metadata_state nlp doc fn = Inr st
       \<and> found_dates st = date_keys ?t
       \<and> dates (metadata st) = map (date_entry ?t) (sorted_keys ?t)"
    apply (rule exI [of _ "\<lparr>parsed_doc = doc,
           metadata = \<lparr>document_name = N, document_date = DD,
              dates = map (date_entry ?t) (sorted_keys ?t), references = R\<rparr>,
           found_dates = date_keys ?t, seen_persons = P, seen_clauses = S\<rparr>"])
    apply (simp add: e)
    done
  from a date_keys_iff [of _ _ _ ?t] date_step_eq [of ?t] normalize_date_cases
  show ?thesis by (intro conjI allI) blast+
qed

theorem unparseable_dates_dropped_witness:
  "\<exists>st. extract_legal_metadata_state no_entities example_undated ''a.pdf'' = Inr st
      \<and> found_dates st = {} \<and> dates (metadata st) = []
      \<and> normalize_date ''2024-13-45'' = None"
proof -
  from unparseable_dates_dropped [of no_entities example_undated "''a.pdf''"] obtain st where
    e: "extract_legal_metadata_state no_entities example_undated ''a.pdf'' = Inr st"
    and f: "found_dates st = date_keys (all_text_of example_undated)"
    and d: "dates (metadata st) = map (date_entry (all_text_of example_undated))
       (sorted_keys (all_text_of example_undated))"
    by blast
  have "date_keys (all_text_of example_undated) = set (sorted_keys (all_text_of example_undated))"
    by (simp only: set_sorted_keys)
  then have k: "found_dates st = {}"
    unfolding f undated_text undated_keys by simp
  have n: "dates (metadata st) = []"
    unfolding d undated_text undated_keys by simp
  from undated_normalize have "normalize_date ''2024-13-45'' = None" by simp
  then show ?thesis
    using e k n by (intro exI [of _ st] conjI)
qed

section \<open>The parsed document is only read\<close>

text \<open>
  C9. For every parsed document and document name, the extraction returns, and the parsed
  document it leaves is the one it was given: the content list and with it every element.
\<close>

theorem parsed_doc_unchanged:
  "\<exists>st. extract_legal_metadata_state nlp doc fn = Inr st
     \<and> extract_legal_metadata nlp doc fn = Inr (metadata st)
     \<and> parsed_doc st = doc \<and> content (parsed_doc st) = content doc"
proof -
  from extract_state [of nlp doc fn] obtain M F P S where
    e: "extract_legal_metadata_state nlp doc fn =
      Inr \<lparr>parsed_doc = doc, metadata = M, found_dates = F, seen_persons = P, seen_clauses = S\<rparr>"
    by blast
  show ?thesis
    apply (rule exI [of _ "\<lparr>parsed_doc = doc, metadata = M, found_dates = F, seen_persons = P,
       seen_clauses = S\<rparr>"])
    apply (simp add: e extract_legal_metadata_def)
    done
qed

section \<open>Figures\<close>

text \<open>
  C10. A figure element has no \<^verbatim>\<open>text\<close> field and is read as the empty string. For every
  document and every non-empty fragment the resolver's answer is the same with all figures
  removed, and no figure's text contains the fragment. Each figure contributes the empty
  string to the joined text, and neither the joined text nor the resolver depends on the
  captions.
\<close>

theorem figures_never_match:
  "(s \<noteq> [] \<longrightarrow>
      find_page s doc = find_page s (doc\<lparr>content := filter (\<lambda>el. \<not> is_figure el) (content doc)\<rparr>))
   \<and> (\<forall>el. is_figure el \<longrightarrow> text_field el = None \<and> get_text el = [])
   \<and> (\<forall>el. s \<noteq> [] \<and> is_figure el \<longrightarrow> \<not> contains (get_text el) s)
   \<and> all_text_of doc =
       join '' '' (map (\<lambda>el. if is_figure el then [] else get_text el) (content doc))
   \<and> all_text_of (doc\<lparr>content := map (recaption h) (content doc)\<rparr>) = all_text_of doc
   \<and> find_page s (doc\<lparr>content := map (recaption h) (content doc)\<rparr>) = find_page s doc"
proof -
  have a: "s \<noteq> [] \<longrightarrow>
      find_page s doc = find_page s (doc\<lparr>content := filter (\<lambda>el. \<not> is_figure el) (content doc)\<rparr>)"
    using find_page_in_skip_figures [of s "content doc"] by (simp add: find_page_def)
  have b: "\<forall>el. is_figure el \<longrightarrow> text_field el = None \<and> get_text el = []"
  proof (intro allI impI)
    fix el assume "is_figure el"
    then show "text_field el = None \<and> get_text el = []"
      by (cases el) (simp_all add: get_text_def)
  qed
  have c: "\<forall>el. s \<noteq> [] \<and> is_figure el \<longrightarrow> \<not> contains (get_text el) s"
    using figure_no_match by blast
  have "map get_text (content doc) =
     map (\<lambda>el. if is_figure el then [] else get_text el) (content doc)"
    by (simp add: get_text_figure)
  then have d: "all_text_of doc =
       join '' '' (map (\<lambda>el. if is_figure el then [] else get_text el) (content doc))"
    unfolding all_text_of_def by (rule join_map_cong)
  have e: "all_text_of (doc\<lparr>content := map (recaption h) (content doc)\<rparr>) = all_text_of doc"
    by (simp add: all_text_of_def comp_def get_text_recaption)
  have f: "find_page s (doc\<lparr>content := map (recaption h) (content doc)\<rparr>) = find_page s doc"
    by (simp add: find_page_def find_page_in_recaption)
  from a b c d e f show ?thesis by blast
qed

theorem figures_never_match_witness:
  "find_page ''Site'' example_figure = 2 \<and> find_page ''plan'' example_figure = - 1
   \<and> all_text_of example_figure = '' Site office ''"
proof -
  have a: "''Site'' \<noteq> []" "''plan'' \<noteq> []" by simp_all
  from figures_never_match [of "''Site''" example_figure] a(1) example_figure_eval
  have s: "find_page ''Site'' example_figure = 2" by simp
  from figures_never_match [of "''plan''" example_figure] a(2) example_figure_eval
  have p: "find_page ''plan'' example_figure = - 1" by simp
  from s p example_figure_eval show ?thesis by simp
qed

end
